theory Spec2Isabelle
  imports Complex_Main "HOL-Library.AList" "HOL-Library.Multiset" "HOL-Library.Sublist"
    "HOL-Library.Char_ord" "HOL-Library.State_Monad"
begin

text \<open>
  A shallow embedding of the core of the social-graph tool: the graph queries of
  graph-engine.js (k-hop neighbours, shortest path, common neighbours), the centrality
  measures of centrality.js (degree, PageRank, betweenness), the label propagation of
  communities.js and the feed ranking of recommender.js. Reading the JSON files, the clock,
  the serializer and the two platform functions \<^verbatim>\<open>String.prototype.toLowerCase\<close> and
  \<^verbatim>\<open>Math.round\<close> stay outside: the loaded collections, \<^verbatim>\<open>Date.now()\<close>, the serialized text of a
  post and the two functions are arguments. The first half of the theory holds the model,
  function by function under the names of the source; the second half holds the properties.
\<close>

section \<open>Data model\<close>

text \<open>
  Nodes and edges are the JSON objects of \<^verbatim>\<open>nodes.json\<close> and \<^verbatim>\<open>edges.json\<close>, with the fields
  the core reads. A field that may be missing is an \<open>option\<close> (\<open>None\<close> is JavaScript's
  \<^verbatim>\<open>undefined\<close>). Keys are strings. Numbers are modelled as exact reals: the model idealises
  IEEE doubles.
\<close>

record node =
  n_id :: "string option"
  n_did :: "string option"
  n_handle :: "string option"
  n_name :: "string option"
  n_community :: "string option"
  n_source :: "string option"

record edge =
  e_from :: "string option"
  e_to :: "string option"
  e_strength :: "real option"

record graph =
  g_nodes :: "node list"
  g_edges :: "edge list"

datatype error = NodeNotFound string

subsection \<open>JavaScript truthiness on optional strings\<close>

definition truthy :: "string option \<Rightarrow> bool" where
  "truthy v = (case v of None \<Rightarrow> False | Some s \<Rightarrow> s \<noteq> [])"

text \<open>\<^verbatim>\<open>a || b\<close>\<close>

definition js_or :: "string option \<Rightarrow> string option \<Rightarrow> string option" where
  "js_or a b = (if truthy a then a else b)"

text \<open>\<^verbatim>\<open>n.handle || n.id || n.did\<close>\<close>

definition nodeKey :: "node \<Rightarrow> string option" where
  "nodeKey n = js_or (js_or (n_handle n) (n_id n)) (n_did n)"

text \<open>\<^verbatim>\<open>.filter(Boolean)\<close> on a list of optional strings\<close>

fun filter_Boolean :: "string option list \<Rightarrow> string list" where
  "filter_Boolean [] = []"
| "filter_Boolean (None # vs) = filter_Boolean vs"
| "filter_Boolean (Some s # vs) = (if s = [] then filter_Boolean vs else s # filter_Boolean vs)"

text \<open>\<^verbatim>\<open>nodes.map(n => n.handle || n.id || n.did).filter(Boolean)\<close>\<close>

definition nodeKeys :: "node list \<Rightarrow> string list" where
  "nodeKeys nodes = filter_Boolean (map nodeKey nodes)"

section \<open>Adjacency index\<close>

text \<open>
  \<^verbatim>\<open>buildAdjacency\<close> (the same code in graph-engine.js, centrality.js and communities.js)
  builds a \<^verbatim>\<open>Map\<close> from key to \<^verbatim>\<open>Set\<close> of keys. Both keep insertion order, so the map is an
  association list and a set is a duplicate-free list.
\<close>

type_synonym adjacency = "(string \<times> string list) list"

text \<open>\<^verbatim>\<open>set.add(x)\<close>\<close>

definition set_add :: "string \<Rightarrow> string list \<Rightarrow> string list" where
  "set_add x s = (if x \<in> set s then s else s @ [x])"

text \<open>\<^verbatim>\<open>adjacency.get(k) || new Set()\<close>\<close>

definition adj_get :: "adjacency \<Rightarrow> string \<Rightarrow> string list" where
  "adj_get adj k = (case map_of adj k of None \<Rightarrow> [] | Some s \<Rightarrow> s)"

definition addEdge :: "string option \<Rightarrow> string option \<Rightarrow> adjacency \<Rightarrow> adjacency" where
  "addEdge a b adj =
     (case (a, b) of
        (Some f, Some t) \<Rightarrow>
          if f = [] \<or> t = [] then adj
          else AList.map_entry f (set_add t)
                 (if map_of adj f = None then adj @ [(f, [])] else adj)
      | _ \<Rightarrow> adj)"

definition buildAdjacency :: "edge list \<Rightarrow> adjacency" where
  "buildAdjacency edges =
     fold (\<lambda>e adj. addEdge (e_to e) (e_from e) (addEdge (e_from e) (e_to e) adj)) edges []"

text \<open>
  The undirected link relation that the edge list induces on keys: some edge with two
  non-empty ends joins \<open>k\<close> and \<open>w\<close>, in either direction.
\<close>

definition linked :: "edge list \<Rightarrow> string \<Rightarrow> string \<Rightarrow> bool" where
  "linked edges k w =
     (k \<noteq> [] \<and> w \<noteq> [] \<and>
      (\<exists>e \<in> set edges. (e_from e = Some k \<and> e_to e = Some w)
                       \<or> (e_to e = Some k \<and> e_from e = Some w)))"

section \<open>Key resolution (graph-engine.js)\<close>

definition startsWith_at :: "string \<Rightarrow> bool" where
  "startsWith_at s = (case s of [] \<Rightarrow> False | c # _ \<Rightarrow> c = CHR ''@'')"

text \<open>\<^verbatim>\<open>input.replace(/^@/, '')\<close>\<close>

definition strip_at :: "string \<Rightarrow> string" where
  "strip_at s = (if startsWith_at s then tl s else s)"

definition index_node :: "node \<Rightarrow> (string \<rightharpoonup> node) \<Rightarrow> (string \<rightharpoonup> node)" where
  "index_node n m =
     (let id = js_or (n_id n) (n_did n);
          handle = n_handle n;
          m1 = (case id of Some i \<Rightarrow> if i \<noteq> [] then m(i \<mapsto> n) else m | None \<Rightarrow> m);
          m2 = (case handle of Some h \<Rightarrow> if h \<noteq> [] then m1(h \<mapsto> n) else m1 | None \<Rightarrow> m1)
      in (case handle of
            Some h \<Rightarrow> if h \<noteq> [] \<and> startsWith_at h then m2(tl h \<mapsto> n) else m2
          | None \<Rightarrow> m2))"

definition buildNodeIndex :: "node list \<Rightarrow> (string \<rightharpoonup> node)" where
  "buildNodeIndex nodes = fold index_node nodes Map.empty"

text \<open>
  \<^verbatim>\<open>resolveNodeKey\<close>: the raw input, then the \<^verbatim>\<open>@\<close>-prefixed form, then the \<^verbatim>\<open>@\<close>-stripped
  form; \<open>None\<close> is the \<^verbatim>\<open>null\<close> result. An empty input is falsy and resolves to nothing.
\<close>

definition resolveNodeKey :: "string \<Rightarrow> (string \<rightharpoonup> node) \<Rightarrow> string option" where
  "resolveNodeKey input nodeByKey =
     (if input = [] then None
      else if nodeByKey input \<noteq> None then Some input
      else let withAt = (if startsWith_at input then input else CHR ''@'' # input)
           in if nodeByKey withAt \<noteq> None then Some withAt
              else if nodeByKey (strip_at input) \<noteq> None then Some (strip_at input)
              else None)"

text \<open>
  The same resolution told from the node list, without the index: the identifiers under
  which \<^verbatim>\<open>buildNodeIndex\<close> registers one node (its \<^verbatim>\<open>id\<close> or else \<^verbatim>\<open>did\<close>, its handle, and its
  handle without the leading \<^verbatim>\<open>@\<close>), and the three forms of an input in the order in which
  \<^verbatim>\<open>resolveNodeKey\<close> tries them. An input resolves when it is not empty and one of its forms is
  registered for some node. These definitions are compared with the two functions in
  \<open>buildNodeIndex_registered\<close> and \<open>resolveNodeKey_forms\<close>.
\<close>

definition node_aliases :: "node \<Rightarrow> string list" where
  "node_aliases n =
     (case js_or (n_id n) (n_did n) of Some i \<Rightarrow> if i \<noteq> [] then [i] else [] | None \<Rightarrow> [])
     @ (case n_handle n of
          Some h \<Rightarrow> if h \<noteq> [] then h # (if startsWith_at h then [tl h] else []) else []
        | None \<Rightarrow> [])"

definition registered :: "node list \<Rightarrow> string \<Rightarrow> bool" where
  "registered nodes k = (\<exists>n \<in> set nodes. k \<in> set (node_aliases n))"

definition alias_forms :: "string \<Rightarrow> string list" where
  "alias_forms input =
     [input, if startsWith_at input then input else CHR ''@'' # input, strip_at input]"


section \<open>Neighbour queries (graph-engine.js)\<close>

text \<open>\<^verbatim>\<open>visited.has(v)\<close> for a possibly missing field\<close>

definition visited_has :: "string set \<Rightarrow> string option \<Rightarrow> bool" where
  "visited_has visited v = (case v of None \<Rightarrow> False | Some s \<Rightarrow> s \<in> visited)"

text \<open>The body of the innermost loop of \<^verbatim>\<open>getNeighbors\<close>.\<close>

definition visit_neighbor :: "string \<Rightarrow> string set \<times> string list \<Rightarrow> string set \<times> string list" where
  "visit_neighbor neighbor st =
     (case st of (visited, next) \<Rightarrow>
        if neighbor \<in> visited then (visited, next)
        else (insert neighbor visited, set_add neighbor next))"

text \<open>One round: every key of the frontier, every neighbour of it.\<close>

definition expand_frontier :: "adjacency \<Rightarrow> string set \<times> string list \<Rightarrow> string set \<times> string list" where
  "expand_frontier adj st =
     (case st of (visited, frontier) \<Rightarrow>
        fold (\<lambda>current acc. fold visit_neighbor (adj_get adj current) acc) frontier (visited, []))"

primrec hop_loop :: "adjacency \<Rightarrow> nat \<Rightarrow> string set \<times> string list \<Rightarrow> string set \<times> string list" where
  "hop_loop adj 0 st = st"
| "hop_loop adj (Suc i) st = hop_loop adj i (expand_frontier adj st)"

definition getNeighbors ::
  "node list \<Rightarrow> edge list \<Rightarrow> string \<Rightarrow> nat \<Rightarrow> error + (string \<times> node list \<times> edge list)" where
  "getNeighbors nodes edges node hops =
     (case resolveNodeKey node (buildNodeIndex nodes) of
        None \<Rightarrow> Inl (NodeNotFound node)
      | Some startKey \<Rightarrow>
          let adjacency = buildAdjacency edges;
              visited = fst (hop_loop adjacency hops ({startKey}, [startKey]))
          in Inr (startKey,
                  filter (\<lambda>n. visited_has visited (nodeKey n) \<or> visited_has visited (n_id n)
                               \<or> visited_has visited (n_handle n)) nodes,
                  filter (\<lambda>e. visited_has visited (e_from e) \<and> visited_has visited (e_to e)) edges))"

definition commonNeighbors ::
  "node list \<Rightarrow> edge list \<Rightarrow> string \<Rightarrow> string \<Rightarrow> error + (string \<times> string \<times> string list)" where
  "commonNeighbors nodes edges a b =
     (let nodeByKey = buildNodeIndex nodes in
      case (resolveNodeKey a nodeByKey, resolveNodeKey b nodeByKey) of
        (Some aKey, Some bKey) \<Rightarrow>
          let adjacency = buildAdjacency edges;
              aNeighbors = adj_get adjacency aKey;
              bNeighbors = adj_get adjacency bKey
          in Inr (aKey, bKey, filter (\<lambda>n. n \<in> set bNeighbors) aNeighbors)
      | (None, _) \<Rightarrow> Inl (NodeNotFound a)
      | (Some _, None) \<Rightarrow> Inl (NodeNotFound b))"

text \<open>
  The keys within \<open>i\<close> links of a key \<open>s\<close>, declared or not: the neighbourhood that \<open>i\<close> rounds
  of the expansion are compared with in \<open>getNeighbors_within_hops\<close>.
\<close>

primrec within_hops :: "edge list \<Rightarrow> string \<Rightarrow> nat \<Rightarrow> string set" where
  "within_hops edges s 0 = {s}"
| "within_hops edges s (Suc i) =
     within_hops edges s i \<union> {w. \<exists>v \<in> within_hops edges s i. linked edges v w}"

subsection \<open>Shortest path\<close>

text \<open>The body of the loop over the neighbours of \<open>current\<close> in \<^verbatim>\<open>shortestPath\<close>.\<close>

definition sp_visit ::
  "string \<Rightarrow> string \<Rightarrow> string list \<times> string set \<times> (string \<rightharpoonup> string)
     \<Rightarrow> string list \<times> string set \<times> (string \<rightharpoonup> string)" where
  "sp_visit current neighbor st =
     (case st of (queue, visited, prev) \<Rightarrow>
        if neighbor \<in> visited then (queue, visited, prev)
        else (queue @ [neighbor], insert neighbor visited, prev(neighbor \<mapsto> current)))"

text \<open>
  Every key that occurs in some adjacency set. The search can only ever visit these keys
  and the start key, which bounds the loop.
\<close>

definition adj_range :: "adjacency \<Rightarrow> string set" where
  "adj_range adj = \<Union> (set ` snd ` set adj)"

lemma finite_adj_range: "finite (adj_range adj)"
  by (simp add: adj_range_def)

lemma adj_get_range: "set (adj_get adj k) \<subseteq> adj_range adj"
proof
  fix x assume "x \<in> set (adj_get adj k)"
  then obtain s where "map_of adj k = Some s" and x: "x \<in> set s"
    by (cases "map_of adj k") (auto simp: adj_get_def)
  then have "(k, s) \<in> set adj" by (simp add: map_of_SomeD)
  with x show "x \<in> adj_range adj" by (force simp: adj_range_def)
qed

lemma sp_visit_seen: "n \<in> v \<Longrightarrow> sp_visit c n (q, v, p) = (q, v, p)"
  by (simp add: sp_visit_def)

lemma sp_visit_new:
  "n \<notin> v \<Longrightarrow> sp_visit c n (q, v, p) = (q @ [n], insert n v, p(n \<mapsto> c))"
  by (simp add: sp_visit_def)

lemma sp_visit_measure:
  assumes "finite U" "set ns \<subseteq> U"
  shows "(case fold (sp_visit c) ns (q, v, p) of (q', v', p') \<Rightarrow> card (U - v') + length q')
           = card (U - v) + length q"
  using assms(2)
proof (induction ns arbitrary: q v p)
  case Nil
  then show ?case by simp
next
  case (Cons n ns)
  show ?case
  proof (cases "n \<in> v")
    case True
    with Cons show ?thesis by (simp add: sp_visit_seen)
  next
    case False
    from Cons.prems have nU: "n \<in> U" and sub: "set ns \<subseteq> U" by simp_all
    have "U - v = insert n (U - insert n v)" using nU False by auto
    moreover have "finite (U - insert n v)" and "n \<notin> U - insert n v"
      using assms(1) by simp_all
    ultimately have "card (U - v) = Suc (card (U - insert n v))"
      by (metis card_insert_disjoint)
    with Cons.IH[OF sub] False show ?thesis
      by (simp add: sp_visit_new)
  qed
qed

text \<open>
  The \<^verbatim>\<open>while (queue.length > 0)\<close> loop, from a state of queue, visited set and \<^verbatim>\<open>prev\<close> map.
  \<^verbatim>\<open>queue.shift()\<close> takes the head; reaching \<^verbatim>\<open>toKey\<close> breaks out of the loop.
\<close>

function sp_bfs ::
  "adjacency \<Rightarrow> string \<Rightarrow> string list \<times> string set \<times> (string \<rightharpoonup> string)
     \<Rightarrow> string set \<times> (string \<rightharpoonup> string)" where
  "sp_bfs adj toKey ([], visited, prev) = (visited, prev)"
| "sp_bfs adj toKey (current # queue, visited, prev) =
     (if current = toKey then (visited, prev)
      else sp_bfs adj toKey (fold (sp_visit current) (adj_get adj current) (queue, visited, prev)))"
  by pat_completeness auto
termination
proof (relation "measure (\<lambda>(adj, toKey, (queue, visited, prev)).
                   card (adj_range adj - visited) + length queue)")
  show "wf (measure (\<lambda>(adj, toKey, (queue, visited, prev)).
                   card (adj_range adj - visited) + length queue))"
    by simp
next
  fix adj :: adjacency and toKey current :: string and queue visited and prev :: "string \<rightharpoonup> string"
  assume "current \<noteq> toKey"
  obtain q' v' p' where f: "fold (sp_visit current) (adj_get adj current) (queue, visited, prev) = (q', v', p')"
    by (cases "fold (sp_visit current) (adj_get adj current) (queue, visited, prev)") auto
  have "card (adj_range adj - v') + length q' = card (adj_range adj - visited) + length queue"
    using sp_visit_measure[where U="adj_range adj" and ns="adj_get adj current" and c=current
        and q=queue and v=visited and p=prev, OF finite_adj_range adj_get_range]
    by (simp add: f)
  then show "((adj, toKey, fold (sp_visit current) (adj_get adj current) (queue, visited, prev)),
              (adj, toKey, current # queue, visited, prev))
             \<in> measure (\<lambda>(adj, toKey, (queue, visited, prev)).
                   card (adj_range adj - visited) + length queue)"
    by (simp add: f)
qed

text \<open>
  The loop \<^verbatim>\<open>while (cursor) { path.unshift(cursor); cursor = prev.get(cursor); }\<close>. Nothing in
  the loop itself bounds it, so it is a partial function: \<open>None\<close> is a loop that never ends.
  An empty string is falsy and ends the loop like \<^verbatim>\<open>undefined\<close>.
\<close>

partial_function (option) sp_path ::
  "(string \<rightharpoonup> string) \<Rightarrow> string option \<Rightarrow> string list \<Rightarrow> string list option" where
  "sp_path prev cursor path =
     (case cursor of
        None \<Rightarrow> Some path
      | Some c \<Rightarrow> if c = [] then Some path else sp_path prev (prev c) (c # path))"

declare sp_path.simps [code]

text \<open>
  \<^verbatim>\<open>shortestPath\<close>: \<open>Some (Inl _)\<close> is the thrown error, \<open>Some (Inr (fromKey, toKey, path))\<close>
  the returned object.
\<close>

definition shortestPath ::
  "node list \<Rightarrow> edge list \<Rightarrow> string \<Rightarrow> string \<Rightarrow> (error + string \<times> string \<times> string list) option" where
  "shortestPath nodes edges from to =
     (let nodeByKey = buildNodeIndex nodes in
      case (resolveNodeKey from nodeByKey, resolveNodeKey to nodeByKey) of
        (Some fromKey, Some toKey) \<Rightarrow>
          let adjacency = buildAdjacency edges;
              (visited, prev) = sp_bfs adjacency toKey ([fromKey], {fromKey}, Map.empty)
          in if toKey \<notin> visited then Some (Inr (fromKey, toKey, []))
             else map_option (\<lambda>path. Inr (fromKey, toKey, path)) (sp_path prev (Some toKey) [])
      | (None, _) \<Rightarrow> Some (Inl (NodeNotFound from))
      | (Some _, None) \<Rightarrow> Some (Inl (NodeNotFound to)))"


section \<open>JavaScript objects used as dictionaries\<close>

text \<open>
  \<^verbatim>\<open>labels\<close>, \<^verbatim>\<open>rank\<close>, \<^verbatim>\<open>newRank\<close>, \<^verbatim>\<open>scores\<close>, \<^verbatim>\<open>sigma\<close>, \<^verbatim>\<open>dist\<close>, \<^verbatim>\<open>preds\<close> and \<^verbatim>\<open>delta\<close> are plain
  objects indexed by key: maps from strings, where \<open>None\<close> is a property that was never
  written (reading it gives \<^verbatim>\<open>undefined\<close>). The objects of the centrality measures are
  written for every declared key before they are read, so their own properties decide every
  read of a declared key; the one exception is a node keyed \<^verbatim>\<open>__proto__\<close>, which the model of
  these objects leaves out. Under the name of a dangling key that is also the name of a
  member of \<^verbatim>\<open>Object.prototype\<close> the centrality measures read that member where the model reads
  \<open>None\<close>: the comparisons \<^verbatim>\<open>dist[w] < 0\<close> and \<^verbatim>\<open>dist[w] === dist[v] + 1\<close> fail for it as they do
  for \<^verbatim>\<open>undefined\<close>, and what \<^verbatim>\<open>newRank[n] += ...\<close> stores under such a name is never read for a
  declared key, so the entries of the declared keys are the same. Where a result depends on
  an inherited member (the labels of communities.js, the table of \<^verbatim>\<open>expandKeywords\<close>) the
  member is modelled: see the section on inherited properties.
\<close>

text \<open>
  Reading a numeric property. The \<open>None\<close> case is \<^verbatim>\<open>newRank[k] || 0\<close> where the source writes
  that; everywhere else the property read has been initialised for every declared key and
  the case does not arise (\<open>dom\<close> lemmas below).
\<close>

definition num_get :: "(string \<rightharpoonup> 'a::zero) \<Rightarrow> string \<Rightarrow> 'a" where
  "num_get m k = (case m k of None \<Rightarrow> 0 | Some v \<Rightarrow> v)"

text \<open>\<^verbatim>\<open>keys.forEach(k => (obj[k] = v))\<close> on a fresh object\<close>

definition init_all :: "string list \<Rightarrow> 'a \<Rightarrow> (string \<rightharpoonup> 'a)" where
  "init_all keys v = fold (\<lambda>k m. m(k \<mapsto> v)) keys Map.empty"

subsection \<open>The order of \<^verbatim>\<open>Object.entries\<close>\<close>

text \<open>
  An object lists its array-index keys (canonical decimal numerals up to \<open>2^32 - 2\<close>) first,
  in ascending numeric order, and then its other string keys in insertion order. An object
  that is iterated is an association list in insertion order.
\<close>

definition is_digit :: "char \<Rightarrow> bool" where
  "is_digit c = (CHR ''0'' \<le> c \<and> c \<le> CHR ''9'')"

definition digits_val :: "string \<Rightarrow> int" where
  "digits_val s = foldl (\<lambda>v c. 10 * v + (of_char c - 48)) 0 s"

definition is_array_index :: "string \<Rightarrow> bool" where
  "is_array_index s =
     (s \<noteq> [] \<and> list_all is_digit s \<and> (s = ''0'' \<or> hd s \<noteq> CHR ''0'')
      \<and> digits_val s \<le> 4294967294)"

definition object_entries :: "(string \<times> 'a) list \<Rightarrow> (string \<times> 'a) list" where
  "object_entries props =
     sort_key (\<lambda>p. digits_val (fst p)) (filter (\<lambda>p. is_array_index (fst p)) props)
     @ filter (\<lambda>p. \<not> is_array_index (fst p)) props"

section \<open>Properties inherited from \<^verbatim>\<open>Object.prototype\<close>\<close>

text \<open>
  \<^verbatim>\<open>labels\<close> and \<^verbatim>\<open>counts\<close> in communities.js and \<^verbatim>\<open>expansions\<close> in recommender.js are plain
  objects that are read under arbitrary names, so a read of a name that is not an own
  property finds the member of \<^verbatim>\<open>Object.prototype\<close> of that name, if there is one. These are
  the names (Node.js); all are functions except the accessor \<^verbatim>\<open>__proto__\<close>, whose value is
  \<^verbatim>\<open>Object.prototype\<close> itself.
\<close>

definition object_prototype_names :: "string list" where
  "object_prototype_names =
     [''constructor'', ''__defineGetter__'', ''__defineSetter__'', ''hasOwnProperty'',
      ''__lookupGetter__'', ''__lookupSetter__'', ''isPrototypeOf'', ''propertyIsEnumerable'',
      ''toString'', ''valueOf'', ''__proto__'', ''toLocaleString'']"

text \<open>
  The string that an inherited member turns into, as a property name or under \<^verbatim>\<open>+\<close>: the
  source text of a native function, \<^verbatim>\<open>[object Object]\<close> for \<^verbatim>\<open>Object.prototype\<close>.
\<close>

definition inherited_string :: "string \<Rightarrow> string" where
  "inherited_string name =
     (if name = ''__proto__'' then ''[object Object]''
      else if name = ''constructor'' then ''function Object() { [native code] }''
      else ''function '' @ name @ ''() { [native code] }'')"

text \<open>
  \<^verbatim>\<open>obj[k] = v\<close> for a string or a number \<open>v\<close>: the setter of \<^verbatim>\<open>__proto__\<close> ignores a
  primitive value, every other name becomes (or stays) an own property.
\<close>

definition obj_set :: "(string \<rightharpoonup> 'a) \<Rightarrow> string \<Rightarrow> 'a \<Rightarrow> (string \<rightharpoonup> 'a)" where
  "obj_set m k v = (if k = ''__proto__'' then m else m(k \<mapsto> v))"

section \<open>Label propagation (communities.js)\<close>

text \<open>
  \<^verbatim>\<open>labels\<close> is the map of the own properties, all strings. \<^verbatim>\<open>const label = labels[n]\<close> is then
  used as a property name of \<^verbatim>\<open>counts\<close>: an own label is itself, an inherited member is its
  string, and a missing label is \<^verbatim>\<open>undefined\<close>, whose property name is \<^verbatim>\<open>"undefined"\<close>.
\<close>

definition label_key :: "(string \<rightharpoonup> string) \<Rightarrow> string \<Rightarrow> string" where
  "label_key labels n =
     (case labels n of
        Some l \<Rightarrow> l
      | None \<Rightarrow> if n \<in> set object_prototype_names then inherited_string n else ''undefined'')"

text \<open>
  A value of \<^verbatim>\<open>counts\<close>: a number, or the string that \<^verbatim>\<open>+ 1\<close> makes of an inherited member.
\<close>

datatype count_value = Count nat | Junk string

text \<open>
  \<^verbatim>\<open>counts[label] = (counts[label] || 0) + 1\<close>. An own number grows by one. A name that is not
  an own property but a member of \<^verbatim>\<open>Object.prototype\<close> reads as that member, which is truthy,
  and \<^verbatim>\<open>+ 1\<close> appends \<^verbatim>\<open>"1"\<close> to its string; the result is stored under the name, except under
  \<^verbatim>\<open>__proto__\<close>. Such a string then grows by another \<^verbatim>\<open>"1"\<close> each time.
\<close>

definition count_label :: "string \<Rightarrow> (string \<times> count_value) list \<Rightarrow> (string \<times> count_value) list" where
  "count_label l counts =
     (case map_of counts l of
        Some (Count c) \<Rightarrow> AList.update l (Count (c + 1)) counts
      | Some (Junk s) \<Rightarrow> AList.update l (Junk (s @ ''1'')) counts
      | None \<Rightarrow>
          if l \<in> set object_prototype_names
          then (if l = ''__proto__'' then counts
                else counts @ [(l, Junk (inherited_string l @ ''1''))])
          else counts @ [(l, Count 1)])"

text \<open>
  The scan for the best label: the first entry with the greatest count wins. For a count
  that is a string, \<^verbatim>\<open>count > bestCount\<close> compares \<^verbatim>\<open>NaN\<close> and is false. \<open>None\<close> for the best
  label means that it is still the initial \<^verbatim>\<open>labels[k]\<close>.
\<close>

definition best_step ::
  "string \<times> count_value \<Rightarrow> string option \<times> int \<Rightarrow> string option \<times> int" where
  "best_step entry best =
     (case (entry, best) of
        ((label, Count cnt), (bestLabel, bestCount)) \<Rightarrow>
          if int cnt > bestCount then (Some label, int cnt) else (bestLabel, bestCount)
      | ((label, Junk s), (bestLabel, bestCount)) \<Rightarrow> (bestLabel, bestCount))"

text \<open>
  The body of the loop over \<^verbatim>\<open>keys\<close>: one node takes the majority label of its neighbours.
  When no entry was chosen, \<^verbatim>\<open>labels[k] = bestLabel\<close> writes back what \<^verbatim>\<open>labels[k]\<close> read and
  changes nothing.
\<close>

definition relabel :: "adjacency \<Rightarrow> string \<Rightarrow> (string \<rightharpoonup> string) \<Rightarrow> (string \<rightharpoonup> string)" where
  "relabel adj k labels =
     (let neighbors = adj_get adj k in
      if length neighbors = 0 then labels
      else let counts = fold (\<lambda>n counts. count_label (label_key labels n) counts) neighbors [];
               best = fold best_step (object_entries counts) (None, -1)
           in (case fst best of None \<Rightarrow> labels | Some l \<Rightarrow> obj_set labels k l))"

definition labelPropagation :: "node list \<Rightarrow> edge list \<Rightarrow> nat \<Rightarrow> (string \<rightharpoonup> string)" where
  "labelPropagation nodes edges iterations =
     (let adj = buildAdjacency edges;
          keys = nodeKeys nodes;
          labels = fold (\<lambda>k m. obj_set m k k) keys Map.empty
      in ((\<lambda>labels. fold (relabel adj) keys labels) ^^ iterations) labels)"

section \<open>Degree centrality (centrality.js)\<close>

text \<open>
  \<^verbatim>\<open>scores[key] = (adj.get(key) || new Set()).size\<close> for every node, where \<^verbatim>\<open>key\<close> is not filtered:
  a node without any key field is counted under the property name \<^verbatim>\<open>"undefined"\<close>, with the
  size 0, because no key of the adjacency map is falsy.
\<close>

definition property_name :: "string option \<Rightarrow> string" where
  "property_name key = (case key of None \<Rightarrow> ''undefined'' | Some s \<Rightarrow> s)"

definition degreeCentrality :: "node list \<Rightarrow> edge list \<Rightarrow> (string \<rightharpoonup> nat)" where
  "degreeCentrality nodes edges =
     (let adj = buildAdjacency edges
      in fold (\<lambda>node scores.
                 let key = nodeKey node
                 in obj_set scores (property_name key)
                      (case key of None \<Rightarrow> 0 | Some k \<Rightarrow> length (adj_get adj k)))
              nodes Map.empty)"

section \<open>PageRank (centrality.js)\<close>

text \<open>The body of the loop over the neighbours of \<open>k\<close>; \<open>share\<close> is \<^verbatim>\<open>damping * (rank[k] / outDegree)\<close>.\<close>

definition pr_give :: "real \<Rightarrow> real \<Rightarrow> string \<Rightarrow> (string \<rightharpoonup> real) \<Rightarrow> (string \<rightharpoonup> real)" where
  "pr_give base share n newRank =
     (let nr = (if newRank n = None then newRank(n \<mapsto> base) else newRank)
      in nr(n \<mapsto> num_get nr n + share))"

definition pr_iteration ::
  "real \<Rightarrow> nat \<Rightarrow> adjacency \<Rightarrow> string list \<Rightarrow> (string \<rightharpoonup> real) \<Rightarrow> (string \<rightharpoonup> real)" where
  "pr_iteration damping N adj keys rank =
     (let newRank0 = init_all keys ((1 - damping) / real N);
          newRank =
            fold (\<lambda>k nr.
                    let neighbors = adj_get adj k;
                        outDegree = (if length neighbors = 0 then 1 else length neighbors)
                    in fold (pr_give ((1 - damping) / real N)
                                     (damping * (num_get rank k / real outDegree)))
                            neighbors nr)
                 keys newRank0
      in fold (\<lambda>k r. r(k \<mapsto> num_get newRank k)) keys rank)"

definition pageRank :: "node list \<Rightarrow> edge list \<Rightarrow> nat \<Rightarrow> real \<Rightarrow> (string \<rightharpoonup> real)" where
  "pageRank nodes edges iterations damping =
     (let adj = buildAdjacency edges;
          keys = nodeKeys nodes;
          N = (if length keys = 0 then 1 else length keys);
          rank = init_all keys (1 / real N)
      in ((pr_iteration damping N adj keys) ^^ iterations) rank)"

text \<open>The sum of the returned ranks over the declared keys.\<close>

definition rankSum :: "node list \<Rightarrow> (string \<rightharpoonup> real) \<Rightarrow> real" where
  "rankSum nodes rank = sum_list (map (num_get rank) (nodeKeys nodes))"


section \<open>Betweenness centrality (centrality.js)\<close>

text \<open>
  Reading \<^verbatim>\<open>preds[w]\<close>. It is read only for a key whose \<^verbatim>\<open>dist\<close> entry is a number, and
  \<^verbatim>\<open>preds\<close>, \<^verbatim>\<open>sigma\<close> and \<^verbatim>\<open>dist\<close> are initialised for the same keys, so the \<open>None\<close> case does
  not arise.
\<close>

definition list_get :: "(string \<rightharpoonup> 'a list) \<Rightarrow> string \<Rightarrow> 'a list" where
  "list_get m k = (case m k of None \<Rightarrow> [] | Some xs \<Rightarrow> xs)"

text \<open>The state of the search from one source.\<close>

record bc_state =
  bc_queue :: "string list"
  bc_stack :: "string list"
  bc_preds :: "string \<rightharpoonup> string list"
  bc_sigma :: "string \<rightharpoonup> real"
  bc_dist :: "string \<rightharpoonup> int"

text \<open>
  The body of the loop over the neighbours \<open>w\<close> of \<open>v\<close>. For a key \<open>w\<close> that has no \<^verbatim>\<open>dist\<close>
  entry, \<^verbatim>\<open>dist[w] < 0\<close> and \<^verbatim>\<open>dist[w] === dist[v] + 1\<close> are both false.
\<close>

definition bc_visit :: "string \<Rightarrow> string \<Rightarrow> bc_state \<Rightarrow> bc_state" where
  "bc_visit v w st =
     (let st1 = (if (case bc_dist st w of Some d \<Rightarrow> d < 0 | None \<Rightarrow> False)
                 then st\<lparr>bc_queue := bc_queue st @ [w],
                         bc_dist := (bc_dist st)(w \<mapsto> num_get (bc_dist st) v + 1)\<rparr>
                 else st)
      in if bc_dist st1 w = Some (num_get (bc_dist st1) v + 1)
         then st1\<lparr>bc_sigma := (bc_sigma st1)(w \<mapsto> num_get (bc_sigma st1) w + num_get (bc_sigma st1) v),
                  bc_preds := (bc_preds st1)(w \<mapsto> list_get (bc_preds st1) w @ [v])\<rparr>
         else st1)"

text \<open>The \<^verbatim>\<open>while (queue.length)\<close> loop; \<open>None\<close> is a loop that never ends.\<close>

partial_function (option) bc_bfs :: "adjacency \<Rightarrow> bc_state \<Rightarrow> bc_state option" where
  "bc_bfs adj st =
     (case bc_queue st of
        [] \<Rightarrow> Some st
      | v # rest \<Rightarrow>
          bc_bfs adj (fold (bc_visit v) (adj_get adj v)
                        (st\<lparr>bc_queue := rest, bc_stack := bc_stack st @ [v]\<rparr>)))"

declare bc_bfs.simps [code]

text \<open>
  The body of the \<^verbatim>\<open>while (stack.length)\<close> loop for the popped key \<open>w\<close>: the dependency of
  each predecessor grows, and \<open>w\<close>'s own dependency is added to its score unless \<open>w\<close> is the
  source.
\<close>

definition bc_back ::
  "string \<Rightarrow> bc_state \<Rightarrow> string \<Rightarrow> (string \<rightharpoonup> real) \<times> (string \<rightharpoonup> real)
     \<Rightarrow> (string \<rightharpoonup> real) \<times> (string \<rightharpoonup> real)" where
  "bc_back s st w acc =
     (case acc of (delta, scores) \<Rightarrow>
        let delta1 = fold (\<lambda>v d. d(v \<mapsto> num_get d v
                                          + (num_get (bc_sigma st) v / num_get (bc_sigma st) w)
                                            * (1 + num_get d w)))
                          (list_get (bc_preds st) w) delta
        in (delta1, if w \<noteq> s then scores(w \<mapsto> num_get scores w + num_get delta1 w) else scores))"

text \<open>One round of the loop over the sources.\<close>

definition bc_source ::
  "adjacency \<Rightarrow> string list \<Rightarrow> string \<Rightarrow> (string \<rightharpoonup> real) \<Rightarrow> (string \<rightharpoonup> real) option" where
  "bc_source adj keys s scores =
     (case bc_bfs adj \<lparr>bc_queue = [s], bc_stack = [], bc_preds = init_all keys [],
                       bc_sigma = (init_all keys 0)(s \<mapsto> 1),
                       bc_dist = (init_all keys (- 1))(s \<mapsto> 0)\<rparr> of
        None \<Rightarrow> None
      | Some st \<Rightarrow>
          Some (snd (fold (bc_back s st) (rev (bc_stack st)) (init_all keys 0, scores))))"

fun bc_sources ::
  "adjacency \<Rightarrow> string list \<Rightarrow> string list \<Rightarrow> (string \<rightharpoonup> real) \<Rightarrow> (string \<rightharpoonup> real) option" where
  "bc_sources adj keys [] scores = Some scores"
| "bc_sources adj keys (s # ss) scores =
     (case bc_source adj keys s scores of
        None \<Rightarrow> None
      | Some scores' \<Rightarrow> bc_sources adj keys ss scores')"

definition betweennessCentrality :: "node list \<Rightarrow> edge list \<Rightarrow> (string \<rightharpoonup> real) option" where
  "betweennessCentrality nodes edges =
     (let adj = buildAdjacency edges; keys = nodeKeys nodes
      in bc_sources adj keys keys (init_all keys 0))"

text \<open>The scores of the listed keys, for reading a result.\<close>

definition scores_at :: "string list \<Rightarrow> (string \<rightharpoonup> real) option \<Rightarrow> real option list option" where
  "scores_at ks r = map_option (\<lambda>m. map m ks) r"

text \<open>An edge both of whose ends are declared keys.\<close>

definition declared_ends :: "node list \<Rightarrow> edge \<Rightarrow> bool" where
  "declared_ends nodes e =
     (e_from e \<in> Some ` set (nodeKeys nodes) \<and> e_to e \<in> Some ` set (nodeKeys nodes))"

section \<open>The loaded graph as program state\<close>

text \<open>
  Every operation works on the object \<^verbatim>\<open>{ nodes, edges }\<close> that \<^verbatim>\<open>loadGraph\<close> returns. Its two
  collections are JavaScript arrays, which any code that holds them can change in place, so
  the effects of an operation are modelled in a state monad whose state is that object. An
  operation reaches the collections through three primitives: reading \<^verbatim>\<open>graph.nodes\<close>, reading
  \<^verbatim>\<open>graph.edges\<close>, and \<^verbatim>\<open>graph.nodes.push(n)\<close>, the one call in the sources of these operations
  that changes a loaded collection (in \<^verbatim>\<open>generateFeed\<close>).
\<close>

type_synonym 'a graph_op = "(graph, 'a) state"

definition read_nodes :: "node list graph_op" where
  "read_nodes = State (\<lambda>graph. (g_nodes graph, graph))"

definition read_edges :: "edge list graph_op" where
  "read_edges = State (\<lambda>graph. (g_edges graph, graph))"

definition push_node :: "node \<Rightarrow> unit graph_op" where
  "push_node n = State (\<lambda>graph. ((), graph\<lparr>g_nodes := g_nodes graph @ [n]\<rparr>))"

text \<open>
  The graph queries: each reads the two collections of the loaded graph and computes its
  result from them with \<^verbatim>\<open>for ... of\<close>, \<^verbatim>\<open>map\<close> and \<^verbatim>\<open>filter\<close>.
\<close>

definition query_getNeighbors ::
  "string \<Rightarrow> nat \<Rightarrow> (error + (string \<times> node list \<times> edge list)) graph_op" where
  "query_getNeighbors node hops =
     do { nodes \<leftarrow> read_nodes; edges \<leftarrow> read_edges;
          State_Monad.return (getNeighbors nodes edges node hops) }"

definition query_shortestPath ::
  "string \<Rightarrow> string \<Rightarrow> ((error + string \<times> string \<times> string list) option) graph_op" where
  "query_shortestPath from to =
     do { nodes \<leftarrow> read_nodes; edges \<leftarrow> read_edges;
          State_Monad.return (shortestPath nodes edges from to) }"

definition query_commonNeighbors ::
  "string \<Rightarrow> string \<Rightarrow> (error + (string \<times> string \<times> string list)) graph_op" where
  "query_commonNeighbors a b =
     do { nodes \<leftarrow> read_nodes; edges \<leftarrow> read_edges;
          State_Monad.return (commonNeighbors nodes edges a b) }"

definition query_degreeCentrality :: "(string \<rightharpoonup> nat) graph_op" where
  "query_degreeCentrality =
     do { nodes \<leftarrow> read_nodes; edges \<leftarrow> read_edges;
          State_Monad.return (degreeCentrality nodes edges) }"

definition query_pageRank :: "nat \<Rightarrow> real \<Rightarrow> (string \<rightharpoonup> real) graph_op" where
  "query_pageRank iterations damping =
     do { nodes \<leftarrow> read_nodes; edges \<leftarrow> read_edges;
          State_Monad.return (pageRank nodes edges iterations damping) }"

definition query_betweennessCentrality :: "((string \<rightharpoonup> real) option) graph_op" where
  "query_betweennessCentrality =
     do { nodes \<leftarrow> read_nodes; edges \<leftarrow> read_edges;
          State_Monad.return (betweennessCentrality nodes edges) }"

definition query_labelPropagation :: "nat \<Rightarrow> (string \<rightharpoonup> string) graph_op" where
  "query_labelPropagation iterations =
     do { nodes \<leftarrow> read_nodes; edges \<leftarrow> read_edges;
          State_Monad.return (labelPropagation nodes edges iterations) }"

section \<open>Feed ranking (recommender.js)\<close>

text \<open>
  A content item, as far as the ranker reads it: the author's handle, the timestamp as
  milliseconds since the epoch (\<open>None\<close> when \<^verbatim>\<open>new Date(timestamp).getTime()\<close> is \<^verbatim>\<open>NaN\<close>),
  the \<^verbatim>\<open>submolt\<close> field when it is a string, and the text
  \<^verbatim>\<open>JSON.stringify(post).toLowerCase()\<close>, which the serializer outside this model supplies.
\<close>

record post =
  p_author_handle :: "string option"
  p_timestamp :: "real option"
  p_submolt :: "string option"
  p_text :: string

record baseline =
  b_amikonet_handle :: "string option"
  b_name :: "string option"
  b_interests :: "string list option"

record dailyNeeds =
  dn_primary :: "string list"
  dn_curious_about :: "string list"
  dn_stuck_points :: "string list option"

datatype feed_section = high_priority | explore | community | people_you_should_know | serendipity

text \<open>The \<^verbatim>\<open>reason\<close> string of a scored item, by the template that produced it.\<close>

datatype reason =
  SameCommunity | Submolt string | MatchesStuckPoints nat | MutualConnections nat
  | MatchesInterests nat

record scored =
  s_post :: post
  s_score :: real
  s_relevance :: real
  s_connection_strength :: real
  s_mutual_count :: nat
  s_reason :: "reason option"
  s_section :: feed_section

subsection \<open>Relevance\<close>

text \<open>
  \<^verbatim>\<open>String.prototype.toLowerCase\<close> is the argument \<open>lc\<close> of the functions below, so what is
  proved of them holds for the platform's function whatever it does outside ASCII. On ASCII
  letters it is this function, which the examples use.
\<close>

definition lower_char :: "char \<Rightarrow> char" where
  "lower_char c = (if CHR ''A'' \<le> c \<and> c \<le> CHR ''Z'' then char_of (of_char c + (32::nat)) else c)"

definition ascii_toLowerCase :: "string \<Rightarrow> string" where
  "ascii_toLowerCase s = map lower_char s"

text \<open>A \<^verbatim>\<open>TypeError\<close> thrown by the runtime, with its message.\<close>

datatype js_exception = TypeError string

text \<open>The own properties of the object \<^verbatim>\<open>expansions\<close>.\<close>

definition expansions :: "string \<Rightarrow> string list option" where
  "expansions key =
     (if key = ''ai'' then Some [''artificial intelligence'', ''ml'', ''machine learning'', ''agents'', ''agent'']
      else if key = ''web3'' then Some [''blockchain'', ''onchain'', ''crypto'', ''token'', ''tokens'']
      else if key = ''cryptocurrency'' then Some [''crypto'', ''token'', ''tokens'']
      else if key = ''trading'' then Some [''trader'', ''markets'', ''market'', ''alpha'']
      else if key = ''investing'' then Some [''investor'', ''portfolio'', ''fund'']
      else if key = ''security'' then Some [''secure'', ''audit'', ''vulnerability'']
      else if key = ''vibe coding'' then Some [''coding'', ''builder'', ''build'', ''shipping'']
      else None)"

text \<open>
  The body of the loop of \<^verbatim>\<open>expandKeywords\<close>. \<^verbatim>\<open>const extra = expansions[key]\<close> is one of the
  seven arrays, or, for a key that is the name of a member of \<^verbatim>\<open>Object.prototype\<close>, that
  member: it is truthy and has no \<^verbatim>\<open>forEach\<close>, so \<^verbatim>\<open>extra.forEach(...)\<close> throws a \<^verbatim>\<open>TypeError\<close>.
  Otherwise it is \<^verbatim>\<open>undefined\<close>.
\<close>

definition expand_keyword :: "(string \<Rightarrow> string) \<Rightarrow> string \<Rightarrow> string list \<Rightarrow> js_exception + string list" where
  "expand_keyword lc k s =
     (if k = [] then Inr s
      else let key = lc k; s1 = set_add key s
           in (case expansions key of
                 Some extra \<Rightarrow> Inr (fold set_add extra s1)
               | None \<Rightarrow>
                   if key \<in> set object_prototype_names
                   then Inl (TypeError ''extra.forEach is not a function'')
                   else Inr s1))"

fun expandKeywords_loop ::
  "(string \<Rightarrow> string) \<Rightarrow> string list \<Rightarrow> string list \<Rightarrow> js_exception + string list" where
  "expandKeywords_loop lc [] s = Inr s"
| "expandKeywords_loop lc (k # keywords) s =
     (case expand_keyword lc k s of
        Inl e \<Rightarrow> Inl e
      | Inr s1 \<Rightarrow> expandKeywords_loop lc keywords s1)"

definition expandKeywords :: "(string \<Rightarrow> string) \<Rightarrow> string list \<Rightarrow> js_exception + string list" where
  "expandKeywords lc keywords = expandKeywords_loop lc keywords []"

text \<open>\<^verbatim>\<open>contentText.includes(w)\<close> counted over a list of words.\<close>

definition count_matches :: "string \<Rightarrow> string list \<Rightarrow> nat" where
  "count_matches contentText ws = length (filter (\<lambda>w. sublist w contentText) ws)"

definition calculateRelevance ::
  "(string \<Rightarrow> string) \<Rightarrow> dailyNeeds \<Rightarrow> post \<Rightarrow> baseline \<Rightarrow> js_exception + (real \<times> nat \<times> nat)" where
  "calculateRelevance lc dn content bl =
     (let needs = dn_primary dn @ dn_curious_about dn;
          stuckPoints = (case dn_stuck_points dn of None \<Rightarrow> [] | Some sp \<Rightarrow> sp)
      in case expandKeywords lc (case b_interests bl of None \<Rightarrow> [] | Some i \<Rightarrow> i) of
           Inl e \<Rightarrow> Inl e
         | Inr interestKeywords \<Rightarrow>
             let contentText = p_text content;
                 matches = count_matches contentText (map lc needs);
                 interestMatches = count_matches contentText interestKeywords;
                 stuckMatches = count_matches contentText (map lc stuckPoints);
                 score0 = min (real matches / real (max (length needs) 1)) 1;
                 score1 = (if interestMatches > 0
                           then min 1 (score0 + min 0.3 (real interestMatches * 0.05)) else score0);
                 score2 = (if stuckMatches > 0 then min 1 (score1 + 0.2) else score1)
             in Inr (score2, stuckMatches, interestMatches))"

subsection \<open>Connection signals\<close>

text \<open>
  The predicate of \<^verbatim>\<open>graph.edges.find\<close> in \<^verbatim>\<open>calculateConnectionStrength\<close>. The author's handle
  is \<^verbatim>\<open>post.author_handle\<close>, which may be missing; \<^verbatim>\<open>===\<close> on strings and \<^verbatim>\<open>undefined\<close> is
  equality of optional strings.
\<close>

definition directEdge_pred :: "string \<Rightarrow> string option \<Rightarrow> edge \<Rightarrow> bool" where
  "directEdge_pred myHandle agentHandle e =
     ((e_from e = Some myHandle \<and> e_to e = agentHandle)
      \<or> (e_from e = agentHandle \<and> e_to e = Some myHandle))"

text \<open>\<^verbatim>\<open>graph.edges.filter(e => e.from === h).map(e => e.to)\<close>\<close>

definition friendsOf :: "string option \<Rightarrow> graph \<Rightarrow> string option list" where
  "friendsOf h g = map e_to (filter (\<lambda>e. e_from e = h) (g_edges g))"

definition mutualFriends :: "string \<Rightarrow> string option \<Rightarrow> graph \<Rightarrow> string option list" where
  "mutualFriends myHandle agentHandle g =
     (let friendsOfMine = friendsOf (Some myHandle) g;
          theirFriends = friendsOf agentHandle g
      in filter (\<lambda>f. f \<in> set theirFriends) friendsOfMine)"

text \<open>\<^verbatim>\<open>directEdge.strength || 0.5\<close>: a missing strength and the number 0 are both falsy.\<close>

definition strength_or_default :: "edge \<Rightarrow> real" where
  "strength_or_default e =
     (case e_strength e of None \<Rightarrow> 0.5 | Some s \<Rightarrow> if s = 0 then 0.5 else s)"

definition calculateConnectionStrength :: "string \<Rightarrow> string option \<Rightarrow> graph \<Rightarrow> real" where
  "calculateConnectionStrength myHandle agentHandle g =
     (case find (directEdge_pred myHandle agentHandle) (g_edges g) of
        Some directEdge \<Rightarrow> strength_or_default directEdge
      | None \<Rightarrow>
          let mutual = mutualFriends myHandle agentHandle g in
          if length mutual > 0 then 0.3 + (real (length mutual) * 0.1)
          else (case (find (\<lambda>n. n_handle n = Some myHandle) (g_nodes g),
                      find (\<lambda>n. n_handle n = agentHandle) (g_nodes g)) of
                  (Some myNode, Some theirNode) \<Rightarrow>
                    if n_community myNode = n_community theirNode then 0.2 else 0
                | _ \<Rightarrow> 0))"

definition calculateMutualFriends :: "string \<Rightarrow> string option \<Rightarrow> graph \<Rightarrow> nat" where
  "calculateMutualFriends myHandle agentHandle g = length (mutualFriends myHandle agentHandle g)"

definition calculateCommunityMatch :: "string \<Rightarrow> string option \<Rightarrow> graph \<Rightarrow> bool" where
  "calculateCommunityMatch myHandle agentHandle g =
     (case (find (\<lambda>n. n_handle n = Some myHandle) (g_nodes g),
            find (\<lambda>n. n_handle n = agentHandle) (g_nodes g)) of
        (Some myNode, Some theirNode) \<Rightarrow>
          truthy (n_community myNode) \<and> truthy (n_community theirNode)
          \<and> n_community myNode = n_community theirNode
      | _ \<Rightarrow> False)"

definition inferCommunityFromSubmolt :: "post \<Rightarrow> string option" where
  "inferCommunityFromSubmolt p =
     (case p_submolt p of
        Some s \<Rightarrow> if s \<noteq> [] then Some (''#submolt:'' @ s) else None
      | None \<Rightarrow> None)"

subsection \<open>Recency, activity, section\<close>

text \<open>\<open>now\<close> is \<^verbatim>\<open>Date.now()\<close>; with an unreadable timestamp every comparison with \<^verbatim>\<open>NaN\<close> fails.\<close>

definition calculateRecency :: "real \<Rightarrow> real option \<Rightarrow> real" where
  "calculateRecency now timestamp =
     (case timestamp of
        None \<Rightarrow> 0.1
      | Some postTime \<Rightarrow>
          let hoursAgo = (now - postTime) / (1000 * 60 * 60) in
          if hoursAgo < 6 then 1.0
          else if hoursAgo < 24 then 0.5
          else if hoursAgo < 168 then 0.3
          else 0.1)"

definition calculateActivity :: "string option \<Rightarrow> graph \<Rightarrow> real" where
  "calculateActivity handle g =
     (let agentEdges = filter (\<lambda>e. e_from e = handle \<or> e_to e = handle) (g_edges g) in
      if length agentEdges = 0 then 0.1
      else if length agentEdges < 5 then 0.3
      else if length agentEdges < 15 then 0.6
      else 1.0)"

definition determineSection :: "real \<Rightarrow> real \<Rightarrow> real \<Rightarrow> nat \<Rightarrow> feed_section" where
  "determineSection score relevance connectionStrength mutualCount =
     (if relevance > 0.6 then high_priority
      else if connectionStrength > 0.3 \<and> connectionStrength < 0.7 then explore
      else if connectionStrength \<ge> 0.7 then community
      else if mutualCount \<ge> 2 then people_you_should_know
      else serendipity)"

subsection \<open>Feed assembly\<close>

text \<open>
  \<^verbatim>\<open>Math.round(x * 1000) / 1000\<close> is the argument \<open>rnd\<close> of the functions below, so what is
  proved of them holds for the rounding of doubles too. On exact reals it is this function
  (\<^verbatim>\<open>Math.round\<close> rounds a half up), which the examples use.
\<close>

definition round3 :: "real \<Rightarrow> real" where
  "round3 x = real_of_int \<lfloor>x * 1000 + 1 / 2\<rfloor> / 1000"

text \<open>
  The body of the scoring loop for one post; \<open>g\<close> is the graph object at that moment. The
  only exception is the one of \<^verbatim>\<open>expandKeywords\<close>, and it leaves the loop and the function.
\<close>

definition scorePost ::
  "(string \<Rightarrow> string) \<Rightarrow> (real \<Rightarrow> real) \<Rightarrow> real \<Rightarrow> baseline \<Rightarrow> dailyNeeds option \<Rightarrow> graph \<Rightarrow> post
     \<Rightarrow> js_exception + scored" where
  "scorePost lc rnd now bl dn g p =
     (case (case dn of Some d \<Rightarrow> calculateRelevance lc d p bl | None \<Rightarrow> Inr (0, 0, 0)) of
        Inl e \<Rightarrow> Inl e
      | Inr (relevance, stuckMatches, interestMatches) \<Rightarrow>
     (let selfHandle = (if truthy (b_amikonet_handle bl) then the (b_amikonet_handle bl) else []);
          connectionStrength =
            (if selfHandle \<noteq> [] then calculateConnectionStrength selfHandle (p_author_handle p) g
             else 0);
          mutualCount =
            (if selfHandle \<noteq> [] then calculateMutualFriends selfHandle (p_author_handle p) g
             else 0);
          communityMatch =
            (if selfHandle \<noteq> [] then calculateCommunityMatch selfHandle (p_author_handle p) g
             else False);
          inferredCommunity = inferCommunityFromSubmolt p;
          recency = calculateRecency now (p_timestamp p);
          activity = calculateActivity (p_author_handle p) g;
          mutualBonus = min (real mutualCount * 0.05) 0.2;
          communityBonus =
            (if communityMatch \<or> (inferredCommunity \<noteq> None \<and> truthy (b_amikonet_handle bl))
             then 0.1 else 0);
          score = (relevance * 0.4) + (connectionStrength * 0.3) + (recency * 0.2)
                  + (activity * 0.1) + mutualBonus + communityBonus;
          reason =
            (if communityMatch then Some SameCommunity
             else if inferredCommunity \<noteq> None then Some (Submolt (the (p_submolt p)))
             else if stuckMatches > 0 then Some (MatchesStuckPoints stuckMatches)
             else if mutualCount > 0 then Some (MutualConnections mutualCount)
             else if interestMatches > 0 then Some (MatchesInterests interestMatches)
             else None)
      in Inr \<lparr>s_post = p, s_score = rnd score, s_relevance = rnd relevance,
          s_connection_strength = rnd connectionStrength, s_mutual_count = mutualCount,
          s_reason = reason,
          s_section = determineSection score relevance connectionStrength mutualCount\<rparr>))"

text \<open>
  \<^verbatim>\<open>for (const post of posts) { ... scored.push({...}) }\<close>: every turn hands the graph object to
  the signals and appends one scored item.
\<close>

fun score_loop ::
  "(string \<Rightarrow> string) \<Rightarrow> (real \<Rightarrow> real) \<Rightarrow> real \<Rightarrow> baseline \<Rightarrow> dailyNeeds option \<Rightarrow> post list
     \<Rightarrow> scored list \<Rightarrow> (js_exception + scored list) graph_op" where
  "score_loop lc rnd now bl dn [] scored = State_Monad.return (Inr scored)"
| "score_loop lc rnd now bl dn (post # posts) scored =
     do { graph \<leftarrow> State_Monad.get;
          (case scorePost lc rnd now bl dn graph post of
             Inl e \<Rightarrow> State_Monad.return (Inl e)
           | Inr item \<Rightarrow> score_loop lc rnd now bl dn posts (scored @ [item])) }"

text \<open>
  \<^verbatim>\<open>scored.sort((a, b) => b.score - a.score)\<close> is a stable sort by descending score; then the
  threshold, the cap and the fallback. The score compared is the field \<^verbatim>\<open>score\<close> of the item,
  which is the rounded score.
\<close>

definition sortByScore :: "scored list \<Rightarrow> scored list" where
  "sortByScore items = sort_key (\<lambda>s. - s_score s) items"

definition assembleFeed :: "scored list \<Rightarrow> scored list" where
  "assembleFeed items =
     (let sorted_items = sortByScore items;
          feed = take 20 (filter (\<lambda>item. s_score item > 0.05) sorted_items)
      in if length feed > 0 then feed else take 5 sorted_items)"

text \<open>The node pushed when the agent's handle is not in the node list.\<close>

definition selfNode :: "baseline \<Rightarrow> node" where
  "selfNode bl =
     \<lparr>n_id = b_amikonet_handle bl, n_did = None, n_handle = b_amikonet_handle bl,
      n_name = b_name bl, n_community = None, n_source = Some ''manual''\<rparr>"

text \<open>
  What \<^verbatim>\<open>generateFeed\<close> returns: the object with the field \<^verbatim>\<open>error\<close>, or the object with the field
  \<^verbatim>\<open>feed\<close>.
\<close>

datatype feed_result = FeedError string | Feed "scored list"

text \<open>
  \<^verbatim>\<open>generateFeed\<close>, with the loaded baseline, daily needs and posts as arguments and the loaded
  graph as the state. A missing baseline gives the error object before anything else
  happens. Otherwise the node list is searched for the agent's handle and the agent's node
  is pushed when the search finds nothing; then the posts are scored against the graph as it
  is by then, and the feed is assembled. A thrown exception is the result \<open>Inl\<close>.
\<close>

definition generateFeed ::
  "(string \<Rightarrow> string) \<Rightarrow> (real \<Rightarrow> real) \<Rightarrow> real \<Rightarrow> baseline option \<Rightarrow> dailyNeeds option \<Rightarrow> post list
     \<Rightarrow> (js_exception + feed_result) graph_op" where
  "generateFeed lc rnd now baseline dn posts =
     (case baseline of
        None \<Rightarrow> State_Monad.return (Inr (FeedError ''Baseline not found. Run: social baseline''))
      | Some bl \<Rightarrow>
          do { nodes \<leftarrow> read_nodes;
               _ \<leftarrow> (if truthy (b_amikonet_handle bl)
                         \<and> find (\<lambda>n. n_handle n = b_amikonet_handle bl) nodes = None
                      then push_node (selfNode bl)
                      else State_Monad.return ());
               result \<leftarrow> score_loop lc rnd now bl dn posts [];
               State_Monad.return
                 (case result of
                    Inl e \<Rightarrow> Inl e
                  | Inr scored \<Rightarrow> Inr (Feed (assembleFeed scored))) })"

section \<open>The connection-strength signal as the specification words it\<close>

text \<open>
  Mutual neighbours over the undirected adjacency index, and two nodes sharing a
  \<^verbatim>\<open>community\<close> attribute, as the specification describes the signal. These two definitions
  follow the specification's sentence, not the code, and are only there to be compared with
  \<open>calculateConnectionStrength\<close>.
\<close>

definition spec_mutualNeighbors :: "string \<Rightarrow> string \<Rightarrow> graph \<Rightarrow> string set" where
  "spec_mutualNeighbors self author g =
     set (adj_get (buildAdjacency (g_edges g)) self)
     \<inter> set (adj_get (buildAdjacency (g_edges g)) author)"

definition spec_shareCommunity :: "string \<Rightarrow> string \<Rightarrow> graph \<Rightarrow> bool" where
  "spec_shareCommunity self author g =
     (\<exists>m \<in> set (g_nodes g). \<exists>t \<in> set (g_nodes g).
        n_handle m = Some self \<and> n_handle t = Some author
        \<and> n_community m \<noteq> None \<and> n_community m = n_community t)"

definition spec_connectionStrength :: "string \<Rightarrow> string \<Rightarrow> graph \<Rightarrow> real" where
  "spec_connectionStrength self author g =
     (case find (directEdge_pred self (Some author)) (g_edges g) of
        Some e \<Rightarrow> (case e_strength e of Some s \<Rightarrow> s | None \<Rightarrow> 0.5)
      | None \<Rightarrow>
          let m = card (spec_mutualNeighbors self author g) in
          if m > 0 then 0.3 + 0.1 * real m
          else if spec_shareCommunity self author g then 0.2 else 0)"

section \<open>Sample data\<close>

definition ex_node :: "string \<Rightarrow> node" where
  "ex_node h = \<lparr>n_id = None, n_did = None, n_handle = Some h, n_name = None,
                n_community = None, n_source = None\<rparr>"

definition ex_edge :: "string \<Rightarrow> string \<Rightarrow> real option \<Rightarrow> edge" where
  "ex_edge a b s = \<lparr>e_from = Some a, e_to = Some b, e_strength = s\<rparr>"

definition ex_baseline :: baseline where
  "ex_baseline = \<lparr>b_amikonet_handle = Some ''@me'', b_name = Some ''Me'', b_interests = None\<rparr>"

definition ex_post :: "string \<Rightarrow> post" where
  "ex_post a = \<lparr>p_author_handle = Some a, p_timestamp = None, p_submolt = None, p_text = ''{}''\<rparr>"

text \<open>
  Three declared nodes and three edges, two of which touch the key \<^verbatim>\<open>@g\<close> that no node
  declares: \<^verbatim>\<open>@a - @m - @g - @b\<close>.
\<close>

definition ex_dangling_nodes :: "node list" where
  "ex_dangling_nodes = [ex_node ''@a'', ex_node ''@m'', ex_node ''@b'']"

definition ex_dangling_edges :: "edge list" where
  "ex_dangling_edges =
     [ex_edge ''@a'' ''@m'' None, ex_edge ''@m'' ''@g'' None, ex_edge ''@g'' ''@b'' None]"

definition ex_recent_post :: "string \<Rightarrow> post" where
  "ex_recent_post a = \<lparr>p_author_handle = Some a, p_timestamp = Some 0, p_submolt = None, p_text = ''{}''\<rparr>"

text \<open>A scored item of the examples: no relevance, no connection, no reason.\<close>

definition ex_scored :: "post \<Rightarrow> real \<Rightarrow> scored" where
  "ex_scored p x = \<lparr>s_post = p, s_score = x, s_relevance = 0, s_connection_strength = 0,
                      s_mutual_count = 0, s_reason = None, s_section = serendipity\<rparr>"



section \<open>Facts about the adjacency index\<close>

lemma set_add_set [simp]: "set (set_add x s) = insert x (set s)"
  by (auto simp: set_add_def)

lemma set_add_distinct [simp]: "distinct s \<Longrightarrow> distinct (set_add x s)"
  by (simp add: set_add_def)

lemma adj_get_addEdge:
  "adj_get (addEdge a b adj) k =
     (case (a, b) of
        (Some f, Some t) \<Rightarrow>
          if f \<noteq> [] \<and> t \<noteq> [] \<and> k = f then set_add t (adj_get adj f) else adj_get adj k
      | _ \<Rightarrow> adj_get adj k)"
  by (auto simp: addEdge_def adj_get_def map_of_map_entry split: option.splits)


lemma distinct_adj_get_addEdge:
  "distinct (adj_get adj k) \<Longrightarrow> distinct (adj_get (addEdge a b adj) k)"
  by (auto simp: adj_get_addEdge split: option.splits)

lemma distinct_adj_get_fold:
  "(\<And>k. distinct (adj_get adj k)) \<Longrightarrow>
   distinct (adj_get (fold (\<lambda>e adj. addEdge (e_to e) (e_from e) (addEdge (e_from e) (e_to e) adj))
                       edges adj) k)"
  by (induction edges arbitrary: adj) (simp_all add: distinct_adj_get_addEdge)

lemma distinct_adj_get_build: "distinct (adj_get (buildAdjacency edges) k)"
  unfolding buildAdjacency_def by (rule distinct_adj_get_fold) (simp add: adj_get_def)

lemma set_adj_get_fold:
  "set (adj_get (fold (\<lambda>e adj. addEdge (e_to e) (e_from e) (addEdge (e_from e) (e_to e) adj)) edges adj) k)
     = set (adj_get adj k) \<union> {w. linked edges k w}"
proof (induction edges arbitrary: adj)
  case Nil
  then show ?case by (simp add: linked_def)
next
  case (Cons e es)
  have "{w. linked (e # es) k w} =
          {w. k \<noteq> [] \<and> w \<noteq> [] \<and> ((e_from e = Some k \<and> e_to e = Some w) \<or> (e_to e = Some k \<and> e_from e = Some w))}
          \<union> {w. linked es k w}"
    by (auto simp: linked_def)
  moreover have "set (adj_get (addEdge (e_to e) (e_from e) (addEdge (e_from e) (e_to e) adj)) k)
     = set (adj_get adj k) \<union>
        {w. k \<noteq> [] \<and> w \<noteq> [] \<and> ((e_from e = Some k \<and> e_to e = Some w) \<or> (e_to e = Some k \<and> e_from e = Some w))}"
    by (auto simp: adj_get_addEdge split: option.splits if_splits)
  ultimately show ?case
    by (simp add: Cons.IH Un_assoc)
qed

lemma adj_get_Nil [simp]: "adj_get [] k = []"
  by (simp add: adj_get_def)

lemma set_adj_get_build: "set (adj_get (buildAdjacency edges) k) = {w. linked edges k w}"
  by (simp add: buildAdjacency_def set_adj_get_fold)



section \<open>Zero-hop neighbourhoods\<close>

text \<open>
  Claim C7, as the specification states it: with \<open>hops = 0\<close> the result is the singleton node
  set and no edges. The edge filter of \<^verbatim>\<open>getNeighbors\<close> keeps every edge whose two endpoints
  are visited, so a self-loop at the start key (an author mentioning their own handle) is
  returned: the stated claim fails on the graph with the one node \<^verbatim>\<open>@a\<close> and the one edge
  \<^verbatim>\<open>@a -> @a\<close>.
\<close>

theorem getNeighbors_zero_hops_self_loop:
  "getNeighbors [ex_node ''@a''] [ex_edge ''@a'' ''@a'' None] ''@a'' 0
     = Inr (''@a'', [ex_node ''@a''], [ex_edge ''@a'' ''@a'' None])"
  by (simp add: getNeighbors_def resolveNodeKey_def buildNodeIndex_def index_node_def ex_node_def
      ex_edge_def js_or_def truthy_def startsWith_at_def visited_has_def nodeKey_def Let_def)

text \<open>
  The node list of the result is filtered by the resolved key too: an input that resolves
  through the \<^verbatim>\<open>@\<close>-stripped alias is returned as that alias, which no node carries as its
  key, id or handle.
\<close>

lemma getNeighbors_zero_hops_alias:
  "getNeighbors [ex_node ''@a''] [] ''a'' 0 = Inr (''a'', [], [])"
  by (simp add: getNeighbors_def resolveNodeKey_def buildNodeIndex_def index_node_def ex_node_def
      js_or_def truthy_def startsWith_at_def visited_has_def nodeKey_def Let_def)

text \<open>
  Claim C7, amended: for every graph and every input that resolves to \<open>startKey\<close>, zero hops
  visit exactly \<open>startKey\<close>; the returned nodes are the declared nodes whose key, id or handle
  is \<open>startKey\<close>, and the returned edges are exactly the self-loops at \<open>startKey\<close> (none when
  the graph has no such edge).
\<close>

theorem getNeighbors_zero_hops:
  assumes "resolveNodeKey k (buildNodeIndex nodes) = Some startKey"
  shows "getNeighbors nodes edges k 0 =
           Inr (startKey,
                filter (\<lambda>n. nodeKey n = Some startKey \<or> n_id n = Some startKey
                             \<or> n_handle n = Some startKey) nodes,
                filter (\<lambda>e. e_from e = Some startKey \<and> e_to e = Some startKey) edges)"
proof -
  have h: "visited_has {startKey} v \<longleftrightarrow> v = Some startKey" for v
    by (cases v) (auto simp: visited_has_def)
  show ?thesis
    using assms by (simp add: getNeighbors_def h)
qed

theorem getNeighbors_zero_hops_witness:
  "resolveNodeKey ''@a'' (buildNodeIndex [ex_node ''@a'', ex_node ''@b'']) = Some ''@a''
   \<and> getNeighbors [ex_node ''@a'', ex_node ''@b''] [ex_edge ''@a'' ''@b'' None] ''@a'' 0
       = Inr (''@a'', [ex_node ''@a''], [])"
proof -
  have h: "resolveNodeKey ''@a'' (buildNodeIndex [ex_node ''@a'', ex_node ''@b'']) = Some ''@a''"
    by (simp add: resolveNodeKey_def buildNodeIndex_def index_node_def ex_node_def js_or_def
        truthy_def startsWith_at_def Let_def)
  show ?thesis
    using h getNeighbors_zero_hops [OF h, of "[ex_edge ''@a'' ''@b'' None]"]
    by (simp add: ex_node_def ex_edge_def nodeKey_def js_or_def truthy_def)
qed

section \<open>Common neighbours\<close>

text \<open>
  Claim C8: for every graph and every pair of inputs that both resolve, the common
  neighbours of \<open>a\<close> and \<open>b\<close> are the common neighbours of \<open>b\<close> and \<open>a\<close>. Both calls succeed,
  and the two returned arrays hold the same keys, each key once (the intersection as a set;
  the order of an array follows the adjacency set of its first argument).
\<close>

theorem commonNeighbors_symmetric:
  assumes "resolveNodeKey a (buildNodeIndex nodes) = Some aKey"
      and "resolveNodeKey b (buildNodeIndex nodes) = Some bKey"
  shows "\<exists>c1 c2. commonNeighbors nodes edges a b = Inr (aKey, bKey, c1)
               \<and> commonNeighbors nodes edges b a = Inr (bKey, aKey, c2)
               \<and> set c1 = set c2 \<and> distinct c1 \<and> distinct c2"
  using assms by (auto simp: commonNeighbors_def Let_def distinct_adj_get_build)

theorem commonNeighbors_symmetric_witness:
  "resolveNodeKey ''@a'' (buildNodeIndex [ex_node ''@a'', ex_node ''@b'']) = Some ''@a''
   \<and> resolveNodeKey ''b'' (buildNodeIndex [ex_node ''@a'', ex_node ''@b'']) = Some ''b''
   \<and> (\<exists>c1 c2. commonNeighbors [ex_node ''@a'', ex_node ''@b'']
                  [ex_edge ''@a'' ''@x'' None, ex_edge ''@x'' ''b'' None] ''@a'' ''b''
                = Inr (''@a'', ''b'', c1)
             \<and> commonNeighbors [ex_node ''@a'', ex_node ''@b'']
                  [ex_edge ''@a'' ''@x'' None, ex_edge ''@x'' ''b'' None] ''b'' ''@a''
                = Inr (''b'', ''@a'', c2)
             \<and> set c1 = set c2 \<and> distinct c1 \<and> distinct c2)"
proof -
  have ha: "resolveNodeKey ''@a'' (buildNodeIndex [ex_node ''@a'', ex_node ''@b'']) = Some ''@a''"
    by (simp add: resolveNodeKey_def buildNodeIndex_def index_node_def ex_node_def js_or_def
        truthy_def startsWith_at_def Let_def)
  have hb: "resolveNodeKey ''b'' (buildNodeIndex [ex_node ''@a'', ex_node ''@b'']) = Some ''b''"
    by (simp add: resolveNodeKey_def buildNodeIndex_def index_node_def ex_node_def js_or_def
        truthy_def startsWith_at_def Let_def)
  show ?thesis
    using ha hb commonNeighbors_symmetric [OF ha hb] by blast
qed

text \<open>
  The two arrays need not list the common keys in the same order: each follows the
  insertion order of its first argument's adjacency set.
\<close>

lemma commonNeighbors_order_example:
  "commonNeighbors [ex_node ''@a'', ex_node ''@b'']
     [ex_edge ''@a'' ''@x'' None, ex_edge ''@b'' ''@y'' None, ex_edge ''@b'' ''@x'' None,
      ex_edge ''@a'' ''@y'' None] ''@a'' ''@b'' = Inr (''@a'', ''@b'', [''@x'', ''@y''])
   \<and> commonNeighbors [ex_node ''@a'', ex_node ''@b'']
     [ex_edge ''@a'' ''@x'' None, ex_edge ''@b'' ''@y'' None, ex_edge ''@b'' ''@x'' None,
      ex_edge ''@a'' ''@y'' None] ''@b'' ''@a'' = Inr (''@b'', ''@a'', [''@y'', ''@x''])"
  by code_simp

section \<open>The connection-strength signal\<close>

lemma find_eq_hd_filter: "\<exists>x\<in>set xs. P x \<Longrightarrow> find P xs = Some (hd (filter P xs))"
  by (induction xs) auto

lemma find_first:
  "\<forall>x\<in>set pre. \<not> P x \<Longrightarrow> P e \<Longrightarrow> find P (pre @ e # post) = Some e"
  by (induction pre) auto

lemma mutualFriends_alt:
  "mutualFriends me author g =
     map e_to (filter (\<lambda>e. e_from e = Some me
                            \<and> (\<exists>e' \<in> set (g_edges g). e_from e' = author \<and> e_to e' = e_to e))
                  (g_edges g))"
  by (auto simp: mutualFriends_def friendsOf_def Let_def filter_map comp_def image_iff
      intro!: arg_cong[where f="map e_to"] filter_cong)

text \<open>
  Claim C2, as the specification states it, with mutual neighbours taken over the undirected
  adjacency: it fails where the only common neighbour is linked by incoming edges. With the
  edges \<^verbatim>\<open>@x -> @me\<close> and \<^verbatim>\<open>@x -> @bob\<close> the key \<^verbatim>\<open>@x\<close> is a mutual neighbour in the
  undirected index, so the stated value is 0.3 + 0.1; the code collects only the targets of
  edges leaving each handle, finds none and returns 0.
\<close>

theorem calculateConnectionStrength_incoming_mutual:
  "calculateConnectionStrength ''@me'' (Some ''@bob'')
      \<lparr>g_nodes = [], g_edges = [ex_edge ''@x'' ''@me'' None, ex_edge ''@x'' ''@bob'' None]\<rparr> = 0
   \<and> spec_connectionStrength ''@me'' ''@bob''
      \<lparr>g_nodes = [], g_edges = [ex_edge ''@x'' ''@me'' None, ex_edge ''@x'' ''@bob'' None]\<rparr> = 2 / 5"
  by (simp add: calculateConnectionStrength_def spec_connectionStrength_def ex_edge_def
      directEdge_pred_def mutualFriends_def friendsOf_def spec_mutualNeighbors_def
      buildAdjacency_def addEdge_def adj_get_def set_add_def spec_shareCommunity_def Let_def)

text \<open>
  Claim C2, amended: for every graph, self handle and item author the signal is
  \<^item> the strength of the first edge, in edge-list order, that links self and author in either
    direction, and 0.5 when that edge carries no strength or the strength 0;
  \<^item> otherwise 0.3 + 0.1 times the number of edges leaving self whose target is also the
    target of an edge leaving the author (outgoing edges only, counted with repetition),
    when there is such an edge;
  \<^item> otherwise 0.2 when a node with self's handle and a node with the author's handle both
    exist and the first of each have equal \<^verbatim>\<open>community\<close> fields (two missing fields are equal);
  \<^item> otherwise 0.
\<close>

theorem calculateConnectionStrength_cases:
  "calculateConnectionStrength me author g =
     (let direct = filter (directEdge_pred me author) (g_edges g);
          shared = filter (\<lambda>e. e_from e = Some me
                               \<and> (\<exists>e' \<in> set (g_edges g). e_from e' = author \<and> e_to e' = e_to e))
                     (g_edges g);
          mine = filter (\<lambda>n. n_handle n = Some me) (g_nodes g);
          theirs = filter (\<lambda>n. n_handle n = author) (g_nodes g)
      in if direct \<noteq> [] then strength_or_default (hd direct)
         else if shared \<noteq> [] then 0.3 + 0.1 * real (length shared)
         else if mine \<noteq> [] \<and> theirs \<noteq> [] \<and> n_community (hd mine) = n_community (hd theirs)
              then 0.2 else 0)"
proof -
  have ex: "(filter P xs \<noteq> []) = (\<exists>x\<in>set xs. P x)" for P and xs :: "'a list"
    by (simp add: filter_empty_conv)
  show ?thesis
  proof (cases "\<exists>e\<in>set (g_edges g). directEdge_pred me author e")
    case True
    then show ?thesis
      by (simp add: calculateConnectionStrength_def find_eq_hd_filter ex Let_def)
  next
    case False
    then have nod: "find (directEdge_pred me author) (g_edges g) = None"
      by (simp add: find_None_iff)
    show ?thesis
    proof (cases "\<exists>n\<in>set (g_nodes g). n_handle n = Some me")
      case m: True
      show ?thesis
      proof (cases "\<exists>n\<in>set (g_nodes g). n_handle n = author")
        case True
        with m nod False show ?thesis
          by (simp add: calculateConnectionStrength_def mutualFriends_alt
              find_eq_hd_filter[where P="\<lambda>n. n_handle n = Some me"]
              find_eq_hd_filter[where P="\<lambda>n. n_handle n = author"] ex Let_def)
      next
        case F2: False
        then have "find (\<lambda>n. n_handle n = author) (g_nodes g) = None"
          by (simp add: find_None_iff)
        with m nod False F2 show ?thesis
          by (simp add: calculateConnectionStrength_def mutualFriends_alt ex Let_def
              split: option.splits)
      qed
    next
      case F1: False
      then have "find (\<lambda>n. n_handle n = Some me) (g_nodes g) = None"
        by (simp add: find_None_iff)
      with nod False F1 show ?thesis
        by (simp add: calculateConnectionStrength_def mutualFriends_alt ex Let_def
            split: option.splits)
    qed
  qed
qed

text \<open>
  The amended statement at three inputs: two outgoing edges to a shared target (twice, so
  the count is 2 and the value 0.5), two declared nodes without a \<^verbatim>\<open>community\<close> field (0.2),
  and a direct edge of strength 0.9.
\<close>

theorem calculateConnectionStrength_cases_witness:
  "calculateConnectionStrength ''@me'' (Some ''@bob'')
      \<lparr>g_nodes = [], g_edges = [ex_edge ''@me'' ''@x'' None, ex_edge ''@me'' ''@x'' None,
                                ex_edge ''@bob'' ''@x'' None]\<rparr> = 1 / 2
   \<and> calculateConnectionStrength ''@me'' (Some ''@bob'')
      \<lparr>g_nodes = [ex_node ''@me'', ex_node ''@bob''], g_edges = []\<rparr> = 1 / 5
   \<and> calculateConnectionStrength ''@me'' (Some ''@bob'')
      \<lparr>g_nodes = [], g_edges = [ex_edge ''@bob'' ''@me'' (Some (9 / 10))]\<rparr> = 9 / 10"
proof -
  have 1: "calculateConnectionStrength ''@me'' (Some ''@bob'')
      \<lparr>g_nodes = [], g_edges = [ex_edge ''@me'' ''@x'' None, ex_edge ''@me'' ''@x'' None,
                                ex_edge ''@bob'' ''@x'' None]\<rparr> = 1 / 2"
    by (simp add: calculateConnectionStrength_cases ex_edge_def directEdge_pred_def)
  have 2: "calculateConnectionStrength ''@me'' (Some ''@bob'')
      \<lparr>g_nodes = [ex_node ''@me'', ex_node ''@bob''], g_edges = []\<rparr> = 1 / 5"
    by (simp add: calculateConnectionStrength_cases ex_node_def)
  have 3: "calculateConnectionStrength ''@me'' (Some ''@bob'')
      \<lparr>g_nodes = [], g_edges = [ex_edge ''@bob'' ''@me'' (Some (9 / 10))]\<rparr> = 9 / 10"
    by (simp add: calculateConnectionStrength_cases ex_edge_def directEdge_pred_def
        strength_or_default_def)
  from 1 2 3 show ?thesis by blast
qed

text \<open>
  At the first two inputs of the witness the specification's sentence gives other values:
  one mutual neighbour counts once (0.4, not 0.5), and nodes without a \<^verbatim>\<open>community\<close>
  attribute share none (0, not 0.2).
\<close>

lemma spec_connectionStrength_examples:
  "spec_connectionStrength ''@me'' ''@bob''
      \<lparr>g_nodes = [], g_edges = [ex_edge ''@me'' ''@x'' None, ex_edge ''@me'' ''@x'' None,
                                ex_edge ''@bob'' ''@x'' None]\<rparr> = 2 / 5
   \<and> spec_connectionStrength ''@me'' ''@bob''
      \<lparr>g_nodes = [ex_node ''@me'', ex_node ''@bob''], g_edges = []\<rparr> = 0"
  by (simp add: spec_connectionStrength_def ex_edge_def ex_node_def directEdge_pred_def
      spec_mutualNeighbors_def buildAdjacency_def addEdge_def adj_get_def set_add_def
      spec_shareCommunity_def Let_def)

text \<open>
  Claim C10, as stated: every graph that contains a direct edge of strength 0 between self
  and author gives 0.5. \<^verbatim>\<open>find\<close> takes the first direct edge of the list, so when a direct
  edge of strength 0.8 comes before the one of strength 0 the result is 0.8.
\<close>

theorem calculateConnectionStrength_zero_after_other:
  "calculateConnectionStrength ''@me'' (Some ''@bob'')
      \<lparr>g_nodes = [], g_edges = [ex_edge ''@me'' ''@bob'' (Some (4 / 5)),
                                ex_edge ''@me'' ''@bob'' (Some 0)]\<rparr>
    = 4 / 5"
  by (simp add: calculateConnectionStrength_def ex_edge_def directEdge_pred_def
      strength_or_default_def)

text \<open>
  Claim C10, amended: for every graph whose first direct edge between self and author, in
  edge-list order, has strength exactly 0, the connection strength is 0.5, the same as when
  that edge carries no strength.
\<close>

theorem calculateConnectionStrength_zero_strength:
  assumes "g_edges g = pre @ e # post"
      and "\<forall>x\<in>set pre. \<not> directEdge_pred me author x"
      and "directEdge_pred me author e"
      and "e_strength e = Some 0"
  shows "calculateConnectionStrength me author g = 0.5
         \<and> calculateConnectionStrength me author g
           = calculateConnectionStrength me author
               (g\<lparr>g_edges := pre @ e\<lparr>e_strength := None\<rparr> # post\<rparr>)"
proof -
  have d: "directEdge_pred me author (e\<lparr>e_strength := None\<rparr>)"
    using assms(3) by (simp add: directEdge_pred_def)
  show ?thesis
    using assms d
    by (simp add: calculateConnectionStrength_def find_first strength_or_default_def)
qed

theorem calculateConnectionStrength_zero_strength_witness:
  "calculateConnectionStrength ''@me'' (Some ''@bob'')
      \<lparr>g_nodes = [], g_edges = [ex_edge ''@me'' ''@x'' (Some 1), ex_edge ''@bob'' ''@me'' (Some 0)]\<rparr>
    = 1 / 2"
proof -
  have a: "g_edges \<lparr>g_nodes = [], g_edges = [ex_edge ''@me'' ''@x'' (Some 1),
                                            ex_edge ''@bob'' ''@me'' (Some 0)]\<rparr>
           = [ex_edge ''@me'' ''@x'' (Some 1)] @ ex_edge ''@bob'' ''@me'' (Some 0) # []"
    by simp
  have b: "\<forall>x\<in>set [ex_edge ''@me'' ''@x'' (Some 1)]. \<not> directEdge_pred ''@me'' (Some ''@bob'') x"
    by (simp add: directEdge_pred_def ex_edge_def)
  have c: "directEdge_pred ''@me'' (Some ''@bob'') (ex_edge ''@bob'' ''@me'' (Some 0))"
    by (simp add: directEdge_pred_def ex_edge_def)
  have d: "e_strength (ex_edge ''@bob'' ''@me'' (Some 0)) = Some 0"
    by (simp add: ex_edge_def)
  show ?thesis
    using calculateConnectionStrength_zero_strength [OF a b c d] by simp
qed

section \<open>Feed assembly and the frame of the feed\<close>

lemma run_read_nodes [simp]: "run_state read_nodes g = (g_nodes g, g)"
  by (simp add: read_nodes_def)

lemma run_read_edges [simp]: "run_state read_edges g = (g_edges g, g)"
  by (simp add: read_edges_def)

lemma run_push_node [simp]:
  "run_state (push_node n) g = ((), g\<lparr>g_nodes := g_nodes g @ [n]\<rparr>)"
  by (simp add: push_node_def)

subsection \<open>When scoring throws\<close>

lemma expansions_inherited: "key \<in> set object_prototype_names \<Longrightarrow> expansions key = None"
  by (auto simp: object_prototype_names_def expansions_def)

lemma expand_keyword_Inr_iff:
  "(\<exists>r. expand_keyword lc k s = Inr r) \<longleftrightarrow> (k = [] \<or> lc k \<notin> set object_prototype_names)"
  by (auto simp: expand_keyword_def Let_def expansions_inherited split: option.splits)

lemma expandKeywords_loop_Inr_iff:
  "(\<exists>r. expandKeywords_loop lc ks s = Inr r)
     \<longleftrightarrow> (\<forall>k \<in> set ks. k = [] \<or> lc k \<notin> set object_prototype_names)"
proof (induction ks arbitrary: s)
  case Nil
  then show ?case by simp
next
  case (Cons k ks)
  show ?case
  proof (cases "expand_keyword lc k s")
    case (Inl e)
    with expand_keyword_Inr_iff[of lc k s] show ?thesis by auto
  next
    case (Inr s1)
    with expand_keyword_Inr_iff[of lc k s] Cons.IH[of s1] show ?thesis by auto
  qed
qed

lemma scorePost_Inr_iff:
  "(\<exists>item. scorePost lc rnd now bl dn g p = Inr item)
     \<longleftrightarrow> (dn = None \<or> (\<forall>k \<in> set (case b_interests bl of None \<Rightarrow> [] | Some i \<Rightarrow> i).
                            k = [] \<or> lc k \<notin> set object_prototype_names))"
proof (cases dn)
  case None
  then show ?thesis by (simp add: scorePost_def Let_def)
next
  case (Some d)
  show ?thesis
    using expandKeywords_loop_Inr_iff[of lc "case b_interests bl of None \<Rightarrow> [] | Some i \<Rightarrow> i" "[]"]
    by (auto simp: scorePost_def Some calculateRelevance_def expandKeywords_def Let_def
             split: sum.splits prod.splits)
qed


subsection \<open>The scoring loop\<close>

lemma score_loop_state: "snd (run_state (score_loop lc rnd now bl dn posts acc) g) = g"
  by (induction posts arbitrary: acc) (simp_all split: sum.splits)


lemma score_loop_total:
  "map (scorePost lc rnd now bl dn g) posts = map Inr items \<Longrightarrow>
   run_state (score_loop lc rnd now bl dn posts acc) g = (Inr (acc @ items), g)"
proof (induction posts arbitrary: acc items)
  case Nil
  then show ?case by simp
next
  case (Cons p ps)
  then obtain item rest where items: "items = item # rest" by (cases items) auto
  with Cons.prems have p: "scorePost lc rnd now bl dn g p = Inr item"
    and ps: "map (scorePost lc rnd now bl dn g) ps = map Inr rest" by simp_all
  from Cons.IH[OF ps, of "acc @ [item]"] p show ?case by (simp add: items)
qed

lemma score_loop_throws:
  "scorePost lc rnd now bl dn g p = Inl e \<Longrightarrow> p \<in> set posts \<Longrightarrow>
   \<exists>e'. run_state (score_loop lc rnd now bl dn posts acc) g = (Inl e', g)"
proof (induction posts arbitrary: acc)
  case Nil
  then show ?case by simp
next
  case (Cons q qs)
  have nr: "\<not> (\<exists>item. scorePost lc rnd now bl dn g p = Inr item)"
    using Cons.prems(1) by simp
  then have "\<not> (\<exists>item. scorePost lc rnd now bl dn g q = Inr item)"
    using scorePost_Inr_iff[of lc rnd now bl dn g p] scorePost_Inr_iff[of lc rnd now bl dn g q]
    by blast
  then obtain e2 where "scorePost lc rnd now bl dn g q = Inl e2"
    by (cases "scorePost lc rnd now bl dn g q") auto
  then show ?case by simp
qed

subsection \<open>Sorting, threshold, cap and fallback\<close>







subsection \<open>The run of \<^verbatim>\<open>generateFeed\<close>\<close>

text \<open>The graph after the search for the agent's node, which is the graph that is scored.\<close>

lemma generateFeed_run:
  "run_state (generateFeed lc rnd now (Some bl) dn posts) g =
     (let g1 = (if truthy (b_amikonet_handle bl)
                   \<and> find (\<lambda>n. n_handle n = b_amikonet_handle bl) (g_nodes g) = None
                then g\<lparr>g_nodes := g_nodes g @ [selfNode bl]\<rparr> else g);
          r = run_state (score_loop lc rnd now bl dn posts []) g1
      in (case fst r of Inl e \<Rightarrow> Inl e | Inr scored \<Rightarrow> Inr (Feed (assembleFeed scored)), snd r))"
  by (simp add: generateFeed_def Let_def split: prod.splits)

lemma generateFeed_state:
  "snd (run_state (generateFeed lc rnd now (Some bl) dn posts) g) =
     (if truthy (b_amikonet_handle bl)
         \<and> find (\<lambda>n. n_handle n = b_amikonet_handle bl) (g_nodes g) = None
      then g\<lparr>g_nodes := g_nodes g @ [selfNode bl]\<rparr> else g)"
  by (simp add: generateFeed_run Let_def score_loop_state)

lemma generateFeed_no_baseline:
  "run_state (generateFeed lc rnd now None dn posts) g
     = (Inr (FeedError ''Baseline not found. Run: social baseline''), g)"
  by (simp add: generateFeed_def)

text \<open>
  A feed is returned exactly when the baseline exists and scoring does not throw, that is,
  when there are no daily needs, no post, or no interest keyword whose lower-case form is the
  name of a member of \<^verbatim>\<open>Object.prototype\<close>.
\<close>

lemma generateFeed_returns_feed:
  "(\<exists>feed g'. run_state (generateFeed lc rnd now baseline dn posts) g = (Inr (Feed feed), g'))
     \<longleftrightarrow> (\<exists>bl. baseline = Some bl
              \<and> (posts = [] \<or> dn = None
                  \<or> (\<forall>k \<in> set (case b_interests bl of None \<Rightarrow> [] | Some i \<Rightarrow> i).
                        k = [] \<or> lc k \<notin> set object_prototype_names)))"
proof (cases baseline)
  case None
  then show ?thesis by (simp add: generateFeed_no_baseline)
next
  case (Some bl)
  define g1 where "g1 = (if truthy (b_amikonet_handle bl)
                   \<and> find (\<lambda>n. n_handle n = b_amikonet_handle bl) (g_nodes g) = None
                then g\<lparr>g_nodes := g_nodes g @ [selfNode bl]\<rparr> else g)"
  define ok where "ok \<longleftrightarrow> dn = None
                  \<or> (\<forall>k \<in> set (case b_interests bl of None \<Rightarrow> [] | Some i \<Rightarrow> i).
                        k = [] \<or> lc k \<notin> set object_prototype_names)"
  have run: "run_state (generateFeed lc rnd now baseline dn posts) g =
      (case fst (run_state (score_loop lc rnd now bl dn posts []) g1) of
         Inl e \<Rightarrow> Inl e | Inr scored \<Rightarrow> Inr (Feed (assembleFeed scored)),
       snd (run_state (score_loop lc rnd now bl dn posts []) g1))"
    by (simp add: Some generateFeed_run g1_def Let_def)
  have all: "\<And>p. (\<exists>item. scorePost lc rnd now bl dn g1 p = Inr item) \<longleftrightarrow> ok"
    unfolding ok_def by (rule scorePost_Inr_iff)
  show ?thesis
  proof (cases "posts = [] \<or> ok")
    case True
    have "\<exists>items. map (scorePost lc rnd now bl dn g1) posts = map Inr items"
    proof (cases "posts = []")
      case True
      then show ?thesis by simp
    next
      case False
      with \<open>posts = [] \<or> ok\<close> have ok by simp
      then have "\<forall>p. \<exists>item. scorePost lc rnd now bl dn g1 p = Inr item"
        using all by simp
      then obtain f where f: "\<And>p. scorePost lc rnd now bl dn g1 p = Inr (f p)"
        by metis
      then have "map (scorePost lc rnd now bl dn g1) posts = map Inr (map f posts)"
        by simp
      then show ?thesis by blast
    qed
    then obtain items where "map (scorePost lc rnd now bl dn g1) posts = map Inr items" ..
    from score_loop_total[OF this, of "[]"]
    have "run_state (generateFeed lc rnd now baseline dn posts) g
            = (Inr (Feed (assembleFeed items)), g1)"
      by (simp add: run)
    with True show ?thesis by (auto simp: Some ok_def)
  next
    case False
    then obtain p ps where posts: "posts = p # ps" by (cases posts) auto
    from False all[of p] obtain e where "scorePost lc rnd now bl dn g1 p = Inl e"
      by (cases "scorePost lc rnd now bl dn g1 p") auto
    from score_loop_throws[OF this, of posts "[]"] obtain e' where
      "run_state (score_loop lc rnd now bl dn posts []) g1 = (Inl e', g1)"
      by (auto simp: posts)
    then have "run_state (generateFeed lc rnd now baseline dn posts) g = (Inl e', g1)"
      by (simp add: run)
    with False show ?thesis by (auto simp: Some ok_def)
  qed
qed



text \<open>
  With daily needs and the interest keyword \<^verbatim>\<open>constructor\<close>, scoring the first post throws: no
  feed is returned, and the agent's node has been pushed by then.
\<close>

lemma ex_feed_throws:
  "run_state (generateFeed ascii_toLowerCase round3 0
               (Some (ex_baseline\<lparr>b_interests := Some [''constructor'']\<rparr>))
               (Some \<lparr>dn_primary = [], dn_curious_about = [], dn_stuck_points = None\<rparr>)
               [ex_post ''@a''])
             \<lparr>g_nodes = [], g_edges = []\<rparr>
    = (Inl (TypeError ''extra.forEach is not a function''),
       \<lparr>g_nodes = [selfNode (ex_baseline\<lparr>b_interests := Some [''constructor'']\<rparr>)], g_edges = []\<rparr>)"
  by code_simp



subsection \<open>The frame of the operations\<close>

text \<open>
  Claim C4, as stated: feed scoring leaves the loaded node collection as it was. When the
  agent's handle is not the handle of any loaded node, \<^verbatim>\<open>generateFeed\<close> pushes a node for the
  agent onto \<^verbatim>\<open>graph.nodes\<close> before it scores: from an empty graph and one post the node
  collection holds one node afterwards.
\<close>

theorem generateFeed_pushes_self_node:
  "run_state (generateFeed ascii_toLowerCase round3 0 (Some ex_baseline) None [ex_post ''@a''])
             \<lparr>g_nodes = [], g_edges = []\<rparr>
     = (Inr (Feed [ex_scored (ex_post ''@a'') (3 / 100)]),
        \<lparr>g_nodes = [selfNode ex_baseline], g_edges = []\<rparr>)"
  by code_simp

text \<open>
  Claim C4, amended: the graph queries (neighbours, shortest path, common neighbours, degree
  centrality, PageRank, betweenness centrality, communities) leave the loaded graph exactly
  as it was. Feed generation, on every input and also when scoring throws, leaves the graph
  as loaded when there is no baseline, when the agent has no handle, or when some loaded node
  carries the agent's handle; otherwise it leaves the graph with one node for the agent
  appended to the node collection. It never changes the edge collection nor a loaded node.
\<close>

theorem generateFeed_frame:
  "snd (run_state (query_getNeighbors node hops) g) = g
   \<and> snd (run_state (query_shortestPath from to) g) = g
   \<and> snd (run_state (query_commonNeighbors a b) g) = g
   \<and> snd (run_state query_degreeCentrality g) = g
   \<and> snd (run_state (query_pageRank iterations damping) g) = g
   \<and> snd (run_state query_betweennessCentrality g) = g
   \<and> snd (run_state (query_labelPropagation iterations) g) = g
   \<and> snd (run_state (generateFeed lc rnd now baseline dn posts) g) =
       (case baseline of
          None \<Rightarrow> g
        | Some bl \<Rightarrow>
            if truthy (b_amikonet_handle bl)
               \<and> (\<forall>n \<in> set (g_nodes g). n_handle n \<noteq> b_amikonet_handle bl)
            then g\<lparr>g_nodes := g_nodes g @ [selfNode bl]\<rparr>
            else g)"
proof -
  have feed: "snd (run_state (generateFeed lc rnd now baseline dn posts) g) =
       (case baseline of
          None \<Rightarrow> g
        | Some bl \<Rightarrow>
            if truthy (b_amikonet_handle bl)
               \<and> (\<forall>n \<in> set (g_nodes g). n_handle n \<noteq> b_amikonet_handle bl)
            then g\<lparr>g_nodes := g_nodes g @ [selfNode bl]\<rparr>
            else g)"
  proof (cases baseline)
    case None
    then show ?thesis by (simp add: generateFeed_no_baseline)
  next
    case (Some bl)
    have "(find (\<lambda>n. n_handle n = b_amikonet_handle bl) (g_nodes g) = None)
            = (\<forall>n \<in> set (g_nodes g). n_handle n \<noteq> b_amikonet_handle bl)"
      by (auto simp: find_None_iff)
    then show ?thesis by (simp add: Some generateFeed_state)
  qed
  show ?thesis
    by (simp add: feed query_getNeighbors_def query_shortestPath_def query_commonNeighbors_def
        query_degreeCentrality_def query_pageRank_def query_betweennessCentrality_def
        query_labelPropagation_def)
qed

text \<open>
  The frame at a graph that holds the agent's node and an edge, with two posts: the graph is
  as loaded after the feed and after a neighbour query.
\<close>

theorem generateFeed_frame_witness:
  "snd (run_state (generateFeed ascii_toLowerCase round3 0 (Some ex_baseline) None
                     [ex_post ''@a'', ex_recent_post ''@b''])
          \<lparr>g_nodes = [ex_node ''@me''], g_edges = [ex_edge ''@me'' ''@b'' None]\<rparr>)
     = \<lparr>g_nodes = [ex_node ''@me''], g_edges = [ex_edge ''@me'' ''@b'' None]\<rparr>
   \<and> snd (run_state (query_getNeighbors ''@me'' 1)
            \<lparr>g_nodes = [ex_node ''@me''], g_edges = [ex_edge ''@me'' ''@b'' None]\<rparr>)
     = \<lparr>g_nodes = [ex_node ''@me''], g_edges = [ex_edge ''@me'' ''@b'' None]\<rparr>"
  using generateFeed_frame [of "''@me''" 1
      "\<lparr>g_nodes = [ex_node ''@me''], g_edges = [ex_edge ''@me'' ''@b'' None]\<rparr>"
      "''@me''" "''@b''" "''@me''" "''@b''" 1 1 ascii_toLowerCase round3 0 "Some ex_baseline" None
      "[ex_post ''@a'', ex_recent_post ''@b'']"]
  by (simp add: ex_baseline_def ex_node_def truthy_def)

section \<open>Label propagation with undeclared neighbours\<close>

lemma relabel_other: "n \<noteq> k \<Longrightarrow> relabel adj k labels n = labels n"
  by (simp add: relabel_def Let_def obj_set_def split: option.splits)

lemma fold_relabel_other: "n \<notin> set ks \<Longrightarrow> fold (relabel adj) ks labels n = labels n"
  by (induction ks arbitrary: labels) (simp_all add: relabel_other)

lemma undefined_not_inherited: "''undefined'' \<notin> set object_prototype_names"
  by (simp add: object_prototype_names_def)

lemma count_same:
  "\<forall>n \<in> set ns. label_key labels n = u \<Longrightarrow>
   fold (\<lambda>n counts. count_label (label_key labels n) counts) ns [(u, Count c)]
     = [(u, Count (c + length ns))]"
  by (induction ns arbitrary: c) (simp_all add: count_label_def)

lemma count_all_same:
  assumes "ns \<noteq> []" and "\<forall>n \<in> set ns. label_key labels n = u"
      and "u \<notin> set object_prototype_names"
  shows "fold (\<lambda>n counts. count_label (label_key labels n) counts) ns [] = [(u, Count (length ns))]"
proof (cases ns)
  case Nil
  with assms show ?thesis by simp
next
  case (Cons n rest)
  with assms have "\<forall>m \<in> set rest. label_key labels m = u" and "label_key labels n = u" by simp_all
  then show ?thesis
    using count_same[of rest labels u 1] assms(3) by (simp add: Cons count_label_def)
qed

lemma undefined_not_index: "\<not> is_array_index ''undefined''"
  by (simp add: is_array_index_def is_digit_def)

lemma object_entries_undefined: "object_entries [(''undefined'', c)] = [(''undefined'', c)]"
  by (simp add: object_entries_def undefined_not_index)

lemma relabel_undefined:
  assumes "adj_get adj k \<noteq> []" and "k \<noteq> ''__proto__''"
      and "\<forall>n \<in> set (adj_get adj k). labels n = None \<and> n \<notin> set object_prototype_names"
  shows "relabel adj k labels k = Some ''undefined''"
proof -
  have "\<forall>n \<in> set (adj_get adj k). label_key labels n = ''undefined''"
    using assms(3) by (simp add: label_key_def)
  then have "fold (\<lambda>n counts. count_label (label_key labels n) counts) (adj_get adj k) []
              = [(''undefined'', Count (length (adj_get adj k)))]"
    using assms(1) undefined_not_inherited by (intro count_all_same) simp_all
  then show ?thesis
    using assms(1,2)
    by (simp add: relabel_def Let_def object_entries_undefined best_step_def obj_set_def)
qed

lemma sweep_undefined:
  assumes "\<forall>n \<in> set (adj_get adj k). n \<notin> set ks \<and> labels n = None
                                       \<and> n \<notin> set object_prototype_names"
      and "adj_get adj k \<noteq> []" and "k \<noteq> ''__proto__''"
      and "k \<in> set ks \<or> labels k = Some ''undefined''"
  shows "fold (relabel adj) ks labels k = Some ''undefined''"
  using assms
proof (induction ks arbitrary: labels)
  case Nil
  then show ?case by simp
next
  case (Cons x xs)
  have ghosts: "\<forall>n \<in> set (adj_get adj k). n \<notin> set xs \<and> relabel adj x labels n = None
                                          \<and> n \<notin> set object_prototype_names"
    using Cons.prems(1) by (auto simp: relabel_other)
  have "k \<in> set xs \<or> relabel adj x labels k = Some ''undefined''"
  proof (cases "x = k")
    case True
    then show ?thesis
      using relabel_undefined[of adj k labels] Cons.prems(1,2,3) by simp
  next
    case False
    then show ?thesis
      using Cons.prems(4) by (auto simp: relabel_other)
  qed
  with Cons.IH[OF ghosts Cons.prems(2,3)] show ?case by simp
qed

lemma init_labels_other: "n \<notin> set ks \<Longrightarrow> fold (\<lambda>k m. obj_set m k k) ks m n = m n"
  by (induction ks arbitrary: m) (simp_all add: obj_set_def)

lemma iterate_other:
  "n \<notin> set ks \<Longrightarrow> ((\<lambda>labels. fold (relabel adj) ks labels) ^^ i) labels n = labels n"
  by (induction i) (simp_all add: fold_relabel_other)

lemma labelPropagation_undeclared:
  "n \<notin> set (nodeKeys nodes) \<Longrightarrow> labelPropagation nodes edges i n = None"
  by (simp add: labelPropagation_def Let_def iterate_other init_labels_other)

text \<open>
  Claim C9, as stated: a declared node all of whose neighbours are undeclared keys has the
  label \<^verbatim>\<open>"undefined"\<close> after one round, and that is no node's key. \<^verbatim>\<open>labels\<close> is a plain object,
  so for an undeclared neighbour named like a member of \<^verbatim>\<open>Object.prototype\<close> the lookup
  \<^verbatim>\<open>labels[n]\<close> is not \<^verbatim>\<open>undefined\<close> but the inherited member: with the declared node \<^verbatim>\<open>@a\<close> and
  the one edge \<^verbatim>\<open>@a -> constructor\<close> the label of \<^verbatim>\<open>@a\<close> after one round is the source string of
  the function \<^verbatim>\<open>Object\<close>.
\<close>

theorem labelPropagation_inherited_label:
  "nodeKeys [ex_node ''@a''] = [''@a'']
   \<and> adj_get (buildAdjacency [ex_edge ''@a'' ''constructor'' None]) ''@a'' = [''constructor'']
   \<and> labelPropagation [ex_node ''@a''] [ex_edge ''@a'' ''constructor'' None] 1 ''@a''
     = Some ''function Object() { [native code] }''"
  by code_simp

text \<open>
  Two more inputs on which the stated claim fails. Nothing keeps a node from being keyed
  \<^verbatim>\<open>undefined\<close>: then the label \<^verbatim>\<open>"undefined"\<close> is the key of a node. And a declared node without
  any neighbour keeps its own key as label: the loop skips it.
\<close>

lemma labelPropagation_undefined_is_a_key:
  "labelPropagation [ex_node ''@a'', ex_node ''undefined''] [ex_edge ''@a'' ''@ghost'' None] 1 ''@a''
     = Some ''undefined''
   \<and> nodeKeys [ex_node ''@a'', ex_node ''undefined''] = [''@a'', ''undefined'']"
  by code_simp

lemma labelPropagation_isolated:
  "labelPropagation [ex_node ''@a''] [] 1 ''@a'' = Some ''@a''"
  by code_simp

text \<open>
  Claim C9, amended: a neighbour key that is neither a declared node nor the name of a member
  of \<^verbatim>\<open>Object.prototype\<close> has no label, and the frequency count receives the property name
  \<^verbatim>\<open>"undefined"\<close> for it, in every round. Consequently, for any declared node, not keyed
  \<^verbatim>\<open>__proto__\<close>, that has at least one neighbour and all of whose neighbours are such keys, the
  output label after one round (and after any larger number of rounds) is \<^verbatim>\<open>"undefined"\<close>;
  that label is the key of no node unless a node is itself keyed \<^verbatim>\<open>undefined\<close>.
\<close>

theorem labelPropagation_ghost_neighbors:
  assumes "k \<in> set (nodeKeys nodes)" and "k \<noteq> ''__proto__''"
      and "adj_get (buildAdjacency edges) k \<noteq> []"
      and "\<forall>n \<in> set (adj_get (buildAdjacency edges) k).
             n \<notin> set (nodeKeys nodes) \<and> n \<notin> set object_prototype_names"
      and "0 < iterations"
  shows "labelPropagation nodes edges iterations k = Some ''undefined''
         \<and> (\<forall>i. \<forall>n \<in> set (adj_get (buildAdjacency edges) k).
               label_key (labelPropagation nodes edges i) n = ''undefined'')
         \<and> (''undefined'' \<notin> set (nodeKeys nodes) \<longrightarrow>
               (\<forall>key \<in> set (nodeKeys nodes).
                  labelPropagation nodes edges iterations k \<noteq> Some key))"
proof -
  obtain i where i: "iterations = Suc i"
    using assms(5) by (cases iterations) simp_all
  define adj where "adj = buildAdjacency edges"
  define ks where "ks = nodeKeys nodes"
  define labels where
    "labels = ((\<lambda>labels. fold (relabel adj) ks labels) ^^ i) (fold (\<lambda>k m. obj_set m k k) ks Map.empty)"
  have ghosts: "\<forall>n \<in> set (adj_get adj k). n \<notin> set ks \<and> labels n = None
                                          \<and> n \<notin> set object_prototype_names"
    using assms(4) by (simp add: labels_def adj_def ks_def iterate_other init_labels_other)
  have "fold (relabel adj) ks labels k = Some ''undefined''"
    using ghosts assms(1,2,3) by (intro sweep_undefined) (simp_all add: adj_def ks_def)
  then have 1: "labelPropagation nodes edges iterations k = Some ''undefined''"
    by (simp add: labelPropagation_def Let_def i labels_def adj_def ks_def)
  have 2: "\<forall>i. \<forall>n \<in> set (adj_get (buildAdjacency edges) k).
               label_key (labelPropagation nodes edges i) n = ''undefined''"
    using assms(4) by (simp add: label_key_def labelPropagation_undeclared)
  from 1 2 show ?thesis by auto
qed

theorem labelPropagation_ghost_neighbors_witness:
  "''@a'' \<in> set (nodeKeys [ex_node ''@a''])
   \<and> adj_get (buildAdjacency [ex_edge ''@a'' ''@ghost'' None]) ''@a'' = [''@ghost'']
   \<and> labelPropagation [ex_node ''@a''] [ex_edge ''@a'' ''@ghost'' None] 1 ''@a'' = Some ''undefined''"
proof -
  have a: "''@a'' \<in> set (nodeKeys [ex_node ''@a''])" by code_simp
  have p: "''@a'' \<noteq> ''__proto__''" by simp
  have n: "adj_get (buildAdjacency [ex_edge ''@a'' ''@ghost'' None]) ''@a'' = [''@ghost'']"
    by code_simp
  have b: "adj_get (buildAdjacency [ex_edge ''@a'' ''@ghost'' None]) ''@a'' \<noteq> []"
    by (simp add: n)
  have c: "\<forall>n \<in> set (adj_get (buildAdjacency [ex_edge ''@a'' ''@ghost'' None]) ''@a'').
             n \<notin> set (nodeKeys [ex_node ''@a'']) \<and> n \<notin> set object_prototype_names"
    by code_simp
  have d: "0 < (1::nat)" by simp
  show ?thesis
    using a n labelPropagation_ghost_neighbors [OF a p b c d] by blast
qed

section \<open>PageRank: the sum of the ranks\<close>

lemma init_all_get: "init_all ks v k = (if k \<in> set ks then Some v else None)"
proof -
  have "fold (\<lambda>k m. m(k \<mapsto> v)) ks m k = (if k \<in> set ks then Some v else m k)" for m
    by (induction ks arbitrary: m) auto
  then show ?thesis by (simp add: init_all_def)
qed




lemma pr_give_dom: "m x \<noteq> None \<Longrightarrow> pr_give base share n m x \<noteq> None"
  by (simp add: pr_give_def Let_def)




lemma copy_back_get:
  "fold (\<lambda>k r. r(k \<mapsto> num_get newRank k)) ks rank x
     = (if x \<in> set ks then Some (num_get newRank x) else rank x)"
  by (induction ks arbitrary: rank) auto




text \<open>The graph without nodes has no rank at all: the sum is 0.\<close>

lemma pageRank_sum_empty_graph: "rankSum [] (pageRank [] [] 20 (85 / 100)) = 0"
  by (simp add: rankSum_def nodeKeys_def)




section \<open>Shortest path: errors, empty paths and paths\<close>















lemma resolveNodeKey_None_iff:
  "resolveNodeKey input nodeByKey = None \<longleftrightarrow>
     input = [] \<or> (nodeByKey input = None
                   \<and> nodeByKey (if startsWith_at input then input else CHR ''@'' # input) = None
                   \<and> nodeByKey (strip_at input) = None)"
  by (auto simp: resolveNodeKey_def Let_def)










lemma ex_path2:
  "shortestPath [ex_node ''@a'', ex_node ''@b'', ex_node ''@c'']
     [ex_edge ''@a'' ''@b'' None] ''@a'' ''@c''
   = Some (Inr (''@a'', ''@c'', []))"
  by code_simp

lemma ex_path3:
  "shortestPath [ex_node ''@a'', ex_node ''@b'', ex_node ''@c'']
     [ex_edge ''@a'' ''@b'' None] ''@a'' ''@z''
   = Some (Inl (NodeNotFound ''@z''))"
  by code_simp


text \<open>
  An empty input is another input outside the stated equivalence: with a node whose handle is
  \<^verbatim>\<open>@\<close>, the \<^verbatim>\<open>@\<close>-prefixed form of the empty input is registered, and yet the empty input fails
  with \<^verbatim>\<open>NodeNotFound\<close>.
\<close>

lemma shortestPath_empty_input:
  "registered [ex_node ''@''] ''@''
   \<and> alias_forms '''' = ['''', ''@'', '''']
   \<and> shortestPath [ex_node ''@''] [] '''' ''@'' = Some (Inl (NodeNotFound ''''))"
  by code_simp



section \<open>Dangling keys in traversal and centrality\<close>

lemma filter_set_add_in:
  "t \<in> K \<Longrightarrow> filter (\<lambda>w. w \<in> K) (set_add t xs) = set_add t (filter (\<lambda>w. w \<in> K) xs)"
  by (simp add: set_add_def)

lemma filter_set_add_out:
  "t \<notin> K \<Longrightarrow> filter (\<lambda>w. w \<in> K) (set_add t xs) = filter (\<lambda>w. w \<in> K) xs"
  by (simp add: set_add_def)

text \<open>
  \<open>adjF\<close> is \<open>adj\<close> restricted to the keys of \<open>K\<close>: on a key of \<open>K\<close> its adjacency set is that
  of \<open>adj\<close> without the keys outside \<open>K\<close>, in the same order.
\<close>

definition adj_restricts :: "string set \<Rightarrow> adjacency \<Rightarrow> adjacency \<Rightarrow> bool" where
  "adj_restricts K adjF adj = (\<forall>k \<in> K. adj_get adjF k = filter (\<lambda>w. w \<in> K) (adj_get adj k))"

lemma restricts_both:
  assumes "adj_restricts K adjF adj" "a \<in> Some ` K" "b \<in> Some ` K"
  shows "adj_restricts K (addEdge a b adjF) (addEdge a b adj)"
  using assms
  by (auto simp: adj_restricts_def adj_get_addEdge filter_set_add_in)

lemma restricts_skip:
  assumes "adj_restricts K adjF adj" "\<not> (a \<in> Some ` K \<and> b \<in> Some ` K)"
  shows "adj_restricts K adjF (addEdge a b adj)"
  using assms
  by (cases a; cases b) (auto simp: adj_restricts_def adj_get_addEdge filter_set_add_out image_iff)

lemma restricts_fold:
  assumes "adj_restricts K adjF adj"
  shows "adj_restricts K
           (fold (\<lambda>e adj. addEdge (e_to e) (e_from e) (addEdge (e_from e) (e_to e) adj))
                 (filter (\<lambda>e. e_from e \<in> Some ` K \<and> e_to e \<in> Some ` K) edges) adjF)
           (fold (\<lambda>e adj. addEdge (e_to e) (e_from e) (addEdge (e_from e) (e_to e) adj)) edges adj)"
  using assms
proof (induction edges arbitrary: adjF adj)
  case Nil
  then show ?case by simp
next
  case (Cons e es)
  show ?case
  proof (cases "e_from e \<in> Some ` K \<and> e_to e \<in> Some ` K")
    case True
    then have "adj_restricts K (addEdge (e_to e) (e_from e) (addEdge (e_from e) (e_to e) adjF))
                 (addEdge (e_to e) (e_from e) (addEdge (e_from e) (e_to e) adj))"
      using Cons.prems by (intro restricts_both) simp_all
    from Cons.IH[OF this] True show ?thesis by simp
  next
    case False
    then have "adj_restricts K adjF (addEdge (e_to e) (e_from e) (addEdge (e_from e) (e_to e) adj))"
      using Cons.prems by (intro restricts_skip) auto
    from Cons.IH[OF this] False show ?thesis by auto
  qed
qed

lemma restricts_build:
  "adj_restricts (set (nodeKeys nodes)) (buildAdjacency (filter (declared_ends nodes) edges))
     (buildAdjacency edges)"
proof -
  have "adj_restricts (set (nodeKeys nodes)) [] []"
    by (simp add: adj_restricts_def)
  from restricts_fold[OF this, of edges] show ?thesis
    by (simp add: buildAdjacency_def declared_ends_def[abs_def])
qed

subsection \<open>The search of betweenness centrality\<close>

lemma bc_visit_stack: "bc_stack (bc_visit v w st) = bc_stack st"
  by (cases "bc_dist st w") (auto simp: bc_visit_def Let_def)

lemma bc_visit_undeclared: "bc_dist st w = None \<Longrightarrow> bc_visit v w st = st"
  by (simp add: bc_visit_def Let_def)

text \<open>
  \<^verbatim>\<open>dist[w] < 0\<close> (a declared key not reached yet) and \<^verbatim>\<open>dist[w] >= 0\<close> (a key that has been
  reached). The invariant of the search: \<^verbatim>\<open>dist\<close> is defined exactly on the declared keys,
  the queue and the stack hold declared keys, and every queued key has been reached, so
  \<^verbatim>\<open>dist[v]\<close> is a number whenever \<open>v\<close> is taken from the queue. Every round takes one key
  from the queue and every key that enters the queue stops being unreached, which bounds
  the loop.
\<close>

definition bc_unseen :: "(string \<rightharpoonup> int) \<Rightarrow> string \<Rightarrow> bool" where
  "bc_unseen dm w = (case dm w of Some d \<Rightarrow> d < 0 | None \<Rightarrow> False)"

definition bc_seen :: "(string \<rightharpoonup> int) \<Rightarrow> string \<Rightarrow> bool" where
  "bc_seen dm w = (case dm w of Some d \<Rightarrow> 0 \<le> d | None \<Rightarrow> False)"

definition bc_inv :: "string set \<Rightarrow> bc_state \<Rightarrow> bool" where
  "bc_inv K st =
     (dom (bc_dist st) = K \<and> set (bc_queue st) \<subseteq> K \<and> set (bc_stack st) \<subseteq> K
      \<and> (\<forall>v \<in> set (bc_queue st). bc_seen (bc_dist st) v))"

definition bc_measure :: "string set \<Rightarrow> bc_state \<Rightarrow> nat" where
  "bc_measure K st = card {w \<in> K. bc_unseen (bc_dist st) w} + length (bc_queue st)"

lemma bc_unseen_upd: "bc_unseen (dm(w \<mapsto> e)) x = (if x = w then e < 0 else bc_unseen dm x)"
  by (simp add: bc_unseen_def)

lemma bc_seen_upd: "bc_seen (dm(w \<mapsto> e)) x = (if x = w then 0 \<le> e else bc_seen dm x)"
  by (simp add: bc_seen_def)

lemma bc_visit_dist:
  "bc_dist (bc_visit v w st) =
     (if bc_unseen (bc_dist st) w then (bc_dist st)(w \<mapsto> num_get (bc_dist st) v + 1)
      else bc_dist st)"
  by (cases "bc_dist st w") (auto simp: bc_visit_def Let_def bc_unseen_def)

lemma bc_visit_queue:
  "bc_queue (bc_visit v w st) =
     (if bc_unseen (bc_dist st) w then bc_queue st @ [w] else bc_queue st)"
  by (cases "bc_dist st w") (auto simp: bc_visit_def Let_def bc_unseen_def)

lemma bc_visit_keeps:
  assumes "finite K" "bc_inv K st" "bc_dist st v = Some dv" "0 \<le> dv"
  shows "bc_inv K (bc_visit v w st) \<and> bc_dist (bc_visit v w st) v = Some dv
         \<and> bc_measure K (bc_visit v w st) = bc_measure K st"
proof (cases "bc_unseen (bc_dist st) w")
  case False
  then have "bc_dist (bc_visit v w st) = bc_dist st" "bc_queue (bc_visit v w st) = bc_queue st"
    by (simp_all add: bc_visit_dist bc_visit_queue)
  with assms show ?thesis
    by (simp add: bc_inv_def bc_measure_def bc_visit_stack)
next
  case True
  from assms(2) have inv: "dom (bc_dist st) = K" "set (bc_queue st) \<subseteq> K" "set (bc_stack st) \<subseteq> K"
      "\<forall>x \<in> set (bc_queue st). bc_seen (bc_dist st) x"
    by (simp_all add: bc_inv_def)
  have wd: "bc_dist st w \<noteq> None" using True by (cases "bc_dist st w") (simp_all add: bc_unseen_def)
  then have wK: "w \<in> K" using inv(1) by blast
  have wv: "w \<noteq> v" using True assms(3,4) by (cases "w = v") (simp_all add: bc_unseen_def)
  have nd: "bc_dist (bc_visit v w st) = (bc_dist st)(w \<mapsto> dv + 1)"
    using True assms(3) by (simp add: bc_visit_dist num_get_def)
  have nq: "bc_queue (bc_visit v w st) = bc_queue st @ [w]"
    using True by (simp add: bc_visit_queue)
  have d1: "dom ((bc_dist st)(w \<mapsto> dv + 1)) = K" using inv(1) wK by auto
  have q1: "\<forall>x \<in> set (bc_queue st @ [w]). bc_seen ((bc_dist st)(w \<mapsto> dv + 1)) x"
    using inv(4) assms(4) by (simp add: bc_seen_upd)
  have i: "bc_inv K (bc_visit v w st)"
    unfolding bc_inv_def nd nq bc_visit_stack using d1 q1 inv(2,3) wK by simp
  have neg: "{x \<in> K. bc_unseen ((bc_dist st)(w \<mapsto> dv + 1)) x}
               = {x \<in> K. bc_unseen (bc_dist st) x} - {w}"
    using assms(4) by (auto simp: bc_unseen_upd)
  have "{x \<in> K. bc_unseen (bc_dist st) x} = insert w ({x \<in> K. bc_unseen (bc_dist st) x} - {w})"
    using wK True by blast
  moreover have "finite ({x \<in> K. bc_unseen (bc_dist st) x} - {w})" using assms(1) by simp
  moreover have "w \<notin> {x \<in> K. bc_unseen (bc_dist st) x} - {w}" by simp
  ultimately have "card {x \<in> K. bc_unseen (bc_dist st) x}
                     = Suc (card ({x \<in> K. bc_unseen (bc_dist st) x} - {w}))"
    by (metis card_insert_disjoint)
  then have m: "bc_measure K (bc_visit v w st) = bc_measure K st"
    unfolding bc_measure_def nd nq neg by simp
  from i m wv assms(3) show ?thesis by (simp add: nd)
qed

lemma bc_visit_fold:
  assumes "finite K"
  shows "bc_inv K st \<Longrightarrow> bc_dist st v = Some dv \<Longrightarrow> 0 \<le> dv \<Longrightarrow>
         bc_inv K (fold (bc_visit v) ws st)
         \<and> bc_measure K (fold (bc_visit v) ws st) = bc_measure K st
         \<and> fold (bc_visit v) (filter (\<lambda>w. w \<in> K) ws) st = fold (bc_visit v) ws st"
proof (induction ws arbitrary: st)
  case Nil
  then show ?case by simp
next
  case (Cons w ws)
  from bc_visit_keeps[OF assms Cons.prems, of w]
  have k: "bc_inv K (bc_visit v w st)" "bc_dist (bc_visit v w st) v = Some dv"
    "bc_measure K (bc_visit v w st) = bc_measure K st"
    by simp_all
  note ih = Cons.IH[OF k(1,2) Cons.prems(3)]
  show ?case
  proof (cases "w \<in> K")
    case True
    with ih k(3) show ?thesis by simp
  next
    case False
    with Cons.prems(1) have "bc_dist st w = None" by (auto simp: bc_inv_def)
    then have "bc_visit v w st = st" by (rule bc_visit_undeclared)
    with ih k(3) False show ?thesis by simp
  qed
qed

lemma bc_bfs_main:
  assumes "finite K" "adj_restricts K adjF adj"
  shows "bc_inv K st \<Longrightarrow>
         \<exists>st'. bc_bfs adj st = Some st' \<and> bc_bfs adjF st = Some st' \<and> set (bc_stack st') \<subseteq> K"
proof (induction "bc_measure K st" arbitrary: st rule: less_induct)
  case less
  show ?case
  proof (cases "bc_queue st")
    case Nil
    have "bc_bfs adj st = Some st"
      by (subst bc_bfs.simps) (simp add: Nil)
    moreover have "bc_bfs adjF st = Some st"
      by (subst bc_bfs.simps) (simp add: Nil)
    ultimately
    show ?thesis using less.prems by (simp add: bc_inv_def)
  next
    case (Cons v rest)
    define st0 where "st0 = st\<lparr>bc_queue := rest, bc_stack := bc_stack st @ [v]\<rparr>"
    from less.prems Cons have "bc_seen (bc_dist st) v" and vK: "v \<in> K"
      by (simp_all add: bc_inv_def)
    then obtain dv where dv: "bc_dist st v = Some dv" "0 \<le> dv"
      by (cases "bc_dist st v") (simp_all add: bc_seen_def)
    have inv0: "bc_inv K st0"
      using less.prems Cons vK by (auto simp: bc_inv_def st0_def)
    have dv0: "bc_dist st0 v = Some dv" using dv by (simp add: st0_def)
    have m0: "bc_measure K st0 < bc_measure K st"
      by (simp add: bc_measure_def st0_def Cons)
    define st1 where "st1 = fold (bc_visit v) (adj_get adj v) st0"
    from bc_visit_fold[OF assms(1) inv0 dv0 dv(2), of "adj_get adj v"]
    have f: "bc_inv K st1" "bc_measure K st1 = bc_measure K st0"
      "fold (bc_visit v) (filter (\<lambda>w. w \<in> K) (adj_get adj v)) st0 = st1"
      by (simp_all add: st1_def)
    have "adj_get adjF v = filter (\<lambda>w. w \<in> K) (adj_get adj v)"
      using assms(2) vK by (simp add: adj_restricts_def)
    then have fF: "fold (bc_visit v) (adj_get adjF v) st0 = st1"
      using f(3) by simp
    have "bc_measure K st1 < bc_measure K st" using f(2) m0 by simp
    from less.hyps[OF this f(1)] obtain st' where
      r: "bc_bfs adj st1 = Some st'" "bc_bfs adjF st1 = Some st'" "set (bc_stack st') \<subseteq> K"
      by blast
    have "bc_bfs adj st = bc_bfs adj st1"
      by (subst bc_bfs.simps) (simp add: Cons st1_def st0_def)
    moreover have "bc_bfs adjF st = bc_bfs adjF st1"
      by (subst bc_bfs.simps) (simp add: Cons fF[symmetric] st0_def)
    ultimately show ?thesis using r by simp
  qed
qed

lemma bc_back_dom:
  "w \<in> dom scores \<Longrightarrow> dom (snd (bc_back s st w (delta, scores))) = dom scores"
  by (auto simp: bc_back_def Let_def)

lemma bc_back_fold_dom:
  "set ws \<subseteq> dom scores \<Longrightarrow> dom (snd (fold (bc_back s st) ws (delta, scores))) = dom scores"
proof (induction ws arbitrary: delta scores)
  case Nil
  then show ?case by simp
next
  case (Cons w ws)
  obtain d1 s1 where b: "bc_back s st w (delta, scores) = (d1, s1)"
    by (cases "bc_back s st w (delta, scores)") auto
  have "dom s1 = dom scores"
    using bc_back_dom[of w scores s st delta] Cons.prems by (simp add: b)
  with Cons.IH[of s1 d1] Cons.prems show ?case by (simp add: b)
qed

lemma dom_init_all: "dom (init_all ks v) = set ks"
  by (auto simp: init_all_get dom_def)

lemma bc_source_main:
  assumes "adj_restricts (set keys) adjF adj" "s \<in> set keys" "dom scores = set keys"
  shows "\<exists>scores'. bc_source adj keys s scores = Some scores'
           \<and> bc_source adjF keys s scores = Some scores' \<and> dom scores' = set keys"
proof -
  define st where "st = \<lparr>bc_queue = [s], bc_stack = [], bc_preds = init_all keys [],
                       bc_sigma = (init_all keys 0)(s \<mapsto> 1),
                       bc_dist = (init_all keys (- 1))(s \<mapsto> 0)\<rparr>"
  have "bc_inv (set keys) st"
    using assms(2) by (auto simp: bc_inv_def st_def dom_init_all bc_seen_def)
  from bc_bfs_main[OF _ assms(1) this] obtain st' where
    r: "bc_bfs adj st = Some st'" "bc_bfs adjF st = Some st'" "set (bc_stack st') \<subseteq> set keys"
    by auto
  have "dom (snd (fold (bc_back s st') (rev (bc_stack st')) (init_all keys 0, scores))) = set keys"
    using bc_back_fold_dom[of "rev (bc_stack st')" scores s st' "init_all keys 0"] r(3) assms(3)
    by simp
  with r show ?thesis
    by (simp add: bc_source_def st_def[symmetric])
qed

lemma bc_sources_main:
  assumes "adj_restricts (set keys) adjF adj"
  shows "set ss \<subseteq> set keys \<Longrightarrow> dom scores = set keys \<Longrightarrow>
         \<exists>scores'. bc_sources adj keys ss scores = Some scores'
           \<and> bc_sources adjF keys ss scores = Some scores' \<and> dom scores' = set keys"
proof (induction ss arbitrary: scores)
  case Nil
  then show ?case by simp
next
  case (Cons s ss)
  from bc_source_main[OF assms, of s scores] Cons.prems obtain sc where
    sc: "bc_source adj keys s scores = Some sc" "bc_source adjF keys s scores = Some sc"
        "dom sc = set keys"
    by auto
  from Cons.IH[OF _ sc(3)] Cons.prems(1) sc show ?case by simp
qed

lemma betweenness_main:
  "\<exists>scores. betweennessCentrality nodes edges = Some scores
     \<and> betweennessCentrality nodes (filter (declared_ends nodes) edges) = Some scores
     \<and> dom scores = set (nodeKeys nodes)"
proof -
  have r: "adj_restricts (set (nodeKeys nodes))
             (buildAdjacency (filter (declared_ends nodes) edges)) (buildAdjacency edges)"
    by (rule restricts_build)
  have d: "dom (init_all (nodeKeys nodes) (0::real)) = set (nodeKeys nodes)"
    by (rule dom_init_all)
  from bc_sources_main[OF r subset_refl d] show ?thesis
    by (simp add: betweennessCentrality_def Let_def)
qed

lemma dom_pr_iteration: "dom (pr_iteration damping N adj keys rank) = set keys \<union> dom rank"
  by (auto simp: pr_iteration_def Let_def copy_back_get dom_def)

lemma dom_pageRank: "dom (pageRank nodes edges iterations damping) = set (nodeKeys nodes)"
proof -
  have "dom (((pr_iteration damping N adj keys) ^^ i) (init_all keys v)) = set keys" for N adj keys i v
    by (induction i) (simp_all add: dom_init_all dom_pr_iteration)
  then show ?thesis by (simp add: pageRank_def Let_def)
qed

subsection \<open>The expansion of the neighbourhood\<close>

text \<open>\<open>within_hops\<close> is the ball of the link relation: what at most \<open>i\<close> links reach.\<close>

lemma within_hops_relpow:
  "within_hops edges s i = {w. \<exists>j \<le> i. (s, w) \<in> {(a, b). linked edges a b} ^^ j}"
proof (induction i)
  case 0
  then show ?case by auto
next
  case (Suc i)
  show ?case
  proof (rule set_eqI, rule iffI)
    fix w assume "w \<in> within_hops edges s (Suc i)"
    then consider "w \<in> within_hops edges s i"
      | v where "v \<in> within_hops edges s i" "linked edges v w" by auto
    then show "w \<in> {w. \<exists>j \<le> Suc i. (s, w) \<in> {(a, b). linked edges a b} ^^ j}"
    proof cases
      case 1
      with Suc.IH obtain j where "j \<le> i" and "(s, w) \<in> {(a, b). linked edges a b} ^^ j" by auto
      note this(2)
      moreover have "j \<le> Suc i" using \<open>j \<le> i\<close> by simp
      ultimately show ?thesis by blast
    next
      case 2
      with Suc.IH obtain j where j: "j \<le> i" "(s, v) \<in> {(a, b). linked edges a b} ^^ j" by auto
      with 2(2) have "(s, w) \<in> {(a, b). linked edges a b} ^^ Suc j" by auto
      moreover have "Suc j \<le> Suc i" using j(1) by simp
      ultimately show ?thesis by blast
    qed
  next
    fix w assume "w \<in> {w. \<exists>j \<le> Suc i. (s, w) \<in> {(a, b). linked edges a b} ^^ j}"
    then obtain j where j: "j \<le> Suc i" "(s, w) \<in> {(a, b). linked edges a b} ^^ j" by auto
    show "w \<in> within_hops edges s (Suc i)"
    proof (cases j)
      case 0
      with j have "w = s" by simp
      moreover have "s \<in> within_hops edges s i" by (induction i) auto
      ultimately show ?thesis by simp
    next
      case (Suc j')
      with j obtain v where v: "(s, v) \<in> {(a, b). linked edges a b} ^^ j'" "linked edges v w"
        by auto
      from j Suc have "j' \<le> i" by simp
      with v(1) Suc.IH have "v \<in> within_hops edges s i" by auto
      with v(2) show ?thesis by auto
    qed
  qed
qed

lemma visit_neighbor_seen: "n \<in> vis \<Longrightarrow> visit_neighbor n (vis, nxt) = (vis, nxt)"
  by (simp add: visit_neighbor_def)

lemma visit_neighbor_new:
  "n \<notin> vis \<Longrightarrow> visit_neighbor n (vis, nxt) = (insert n vis, set_add n nxt)"
  by (simp add: visit_neighbor_def)

lemma visit_neighbor_fold_sets:
  "fold visit_neighbor ns (vis, nxt) = (vis', nxt') \<Longrightarrow>
   vis' = vis \<union> set ns \<and> set nxt' = set nxt \<union> (set ns - vis)"
proof (induction ns arbitrary: vis nxt)
  case Nil
  then show ?case by simp
next
  case (Cons n ns)
  show ?case
  proof (cases "n \<in> vis")
    case True
    with Cons.prems have "fold visit_neighbor ns (vis, nxt) = (vis', nxt')"
      by (simp add: visit_neighbor_seen)
    from Cons.IH[OF this] True show ?thesis by auto
  next
    case False
    with Cons.prems have "fold visit_neighbor ns (insert n vis, set_add n nxt) = (vis', nxt')"
      by (simp add: visit_neighbor_new)
    from Cons.IH[OF this] False show ?thesis by (auto simp: set_add_def)
  qed
qed

lemma frontier_fold_sets:
  "fold (\<lambda>current acc. fold visit_neighbor (adj_get adj current) acc) fr (vis, nxt) = (vis', nxt')
   \<Longrightarrow> vis' = vis \<union> (\<Union>c \<in> set fr. set (adj_get adj c)) \<and> set nxt' = set nxt \<union> (vis' - vis)"
proof (induction fr arbitrary: vis nxt)
  case Nil
  then show ?case by simp
next
  case (Cons c fr)
  obtain v1 n1 where s1: "fold visit_neighbor (adj_get adj c) (vis, nxt) = (v1, n1)"
    by (cases "fold visit_neighbor (adj_get adj c) (vis, nxt)") auto
  from visit_neighbor_fold_sets[OF s1]
  have a: "v1 = vis \<union> set (adj_get adj c)" "set n1 = set nxt \<union> (set (adj_get adj c) - vis)"
    by simp_all
  from Cons.prems s1
  have "fold (\<lambda>current acc. fold visit_neighbor (adj_get adj current) acc) fr (v1, n1) = (vis', nxt')"
    by simp
  from Cons.IH[OF this]
  have b: "vis' = v1 \<union> (\<Union>c \<in> set fr. set (adj_get adj c))" "set nxt' = set n1 \<union> (vis' - v1)"
    by simp_all
  from a b show ?case by auto
qed

lemma expand_frontier_sets:
  "expand_frontier adj (vis, fr) = (vis', fr') \<Longrightarrow>
   vis' = vis \<union> (\<Union>c \<in> set fr. set (adj_get adj c)) \<and> set fr' = vis' - vis"
  using frontier_fold_sets[of adj fr vis "[]" vis' fr'] by (simp add: expand_frontier_def)

text \<open>
  The invariant of the expansion after \<open>i\<close> rounds: the visited keys are the keys within \<open>i\<close>
  links of the start, the frontier is visited, and every link that leaves the visited keys
  leaves from the frontier.
\<close>

definition hop_inv :: "edge list \<Rightarrow> string \<Rightarrow> nat \<Rightarrow> string set \<times> string list \<Rightarrow> bool" where
  "hop_inv edges s i st =
     (case st of (visited, frontier) \<Rightarrow>
        visited = within_hops edges s i \<and> set frontier \<subseteq> visited
        \<and> (\<forall>v \<in> visited. \<forall>w. linked edges v w \<longrightarrow>
              w \<in> visited \<or> (\<exists>c \<in> set frontier. linked edges c w)))"

lemma hop_inv_step:
  assumes "hop_inv edges s i st"
  shows "hop_inv edges s (Suc i) (expand_frontier (buildAdjacency edges) st)"
proof -
  obtain vis fr where st: "st = (vis, fr)" by (cases st) auto
  obtain vis' fr' where e: "expand_frontier (buildAdjacency edges) (vis, fr) = (vis', fr')"
    by (cases "expand_frontier (buildAdjacency edges) (vis, fr)") auto
  from assms st have inv: "vis = within_hops edges s i" "set fr \<subseteq> vis"
    "\<forall>v \<in> vis. \<forall>w. linked edges v w \<longrightarrow> w \<in> vis \<or> (\<exists>c \<in> set fr. linked edges c w)"
    by (auto simp: hop_inv_def)
  from expand_frontier_sets[OF e]
  have v': "vis' = vis \<union> {w. \<exists>c \<in> set fr. linked edges c w}" and f': "set fr' = vis' - vis"
    by (auto simp: set_adj_get_build)
  have 1: "vis' = within_hops edges s (Suc i)"
    using v' inv by auto
  have 2: "set fr' \<subseteq> vis'" using f' by auto
  have 3: "\<forall>v \<in> vis'. \<forall>w. linked edges v w \<longrightarrow> w \<in> vis' \<or> (\<exists>c \<in> set fr'. linked edges c w)"
  proof (intro ballI allI impI)
    fix v w assume v: "v \<in> vis'" and l: "linked edges v w"
    show "w \<in> vis' \<or> (\<exists>c \<in> set fr'. linked edges c w)"
    proof (cases "v \<in> vis")
      case True
      with inv(3) l have "w \<in> vis \<or> (\<exists>c \<in> set fr. linked edges c w)" by blast
      with v' show ?thesis by auto
    next
      case False
      with v f' have "v \<in> set fr'" by simp
      with l show ?thesis by blast
    qed
  qed
  from 1 2 3 show ?thesis by (simp add: st e hop_inv_def)
qed

lemma hop_loop_inv:
  "hop_inv edges s j st \<Longrightarrow> hop_inv edges s (j + i) (hop_loop (buildAdjacency edges) i st)"
proof (induction i arbitrary: j st)
  case 0
  then show ?case by simp
next
  case (Suc i)
  from hop_inv_step[OF Suc.prems]
  have "hop_inv edges s (Suc j) (expand_frontier (buildAdjacency edges) st)" .
  from Suc.IH[OF this] show ?case by simp
qed

lemma hop_loop_within_hops:
  "fst (hop_loop (buildAdjacency edges) hops ({s}, [s])) = within_hops edges s hops"
proof -
  have "hop_inv edges s 0 ({s}, [s])" by (simp add: hop_inv_def)
  from hop_loop_inv[OF this, of hops] show ?thesis
    by (cases "hop_loop (buildAdjacency edges) hops ({s}, [s])") (simp add: hop_inv_def)
qed

lemma getNeighbors_within_hops:
  assumes "resolveNodeKey k (buildNodeIndex nodes) = Some startKey"
  shows "getNeighbors nodes edges k hops =
           Inr (startKey,
                filter (\<lambda>n. visited_has (within_hops edges startKey hops) (nodeKey n)
                             \<or> visited_has (within_hops edges startKey hops) (n_id n)
                             \<or> visited_has (within_hops edges startKey hops) (n_handle n)) nodes,
                filter (\<lambda>e. visited_has (within_hops edges startKey hops) (e_from e)
                             \<and> visited_has (within_hops edges startKey hops) (e_to e)) edges)"
  using assms by (simp add: getNeighbors_def Let_def hop_loop_within_hops)

subsection \<open>Degree centrality\<close>

lemma filter_Boolean_set: "set (filter_Boolean vs) = {s. s \<noteq> [] \<and> Some s \<in> set vs}"
  by (induction vs rule: filter_Boolean.induct) auto

lemma nodeKeys_iff:
  "k \<in> set (nodeKeys nodes) \<longleftrightarrow> k \<noteq> [] \<and> (\<exists>n \<in> set nodes. nodeKey n = Some k)"
  by (force simp: nodeKeys_def filter_Boolean_set image_iff)

lemma degree_fold:
  assumes "k \<noteq> ''__proto__''"
      and "\<forall>n \<in> set nodes. property_name (nodeKey n) = k \<longrightarrow> val n = c"
  shows "fold (\<lambda>node scores. obj_set scores (property_name (nodeKey node)) (val node)) nodes m k
           = (if \<exists>n \<in> set nodes. property_name (nodeKey n) = k then Some c else m k)"
  using assms(2)
proof (induction nodes arbitrary: m)
  case Nil
  then show ?case by simp
next
  case (Cons n nodes)
  then show ?case using assms(1) by (auto simp: obj_set_def)
qed

lemma length_adj_card:
  "length (adj_get (buildAdjacency edges) k) = card {w. linked edges k w}"
  using distinct_card[OF distinct_adj_get_build[of edges k]] by (simp add: set_adj_get_build)

lemma degreeCentrality_declared:
  assumes "k \<in> set (nodeKeys nodes)" "k \<noteq> ''__proto__''" "k \<noteq> ''undefined''"
  shows "degreeCentrality nodes edges k = Some (card {w. linked edges k w})"
proof -
  define val where "val = (\<lambda>node. case nodeKey node of None \<Rightarrow> 0
                               | Some k \<Rightarrow> length (adj_get (buildAdjacency edges) k))"
  have v: "\<forall>n \<in> set nodes. property_name (nodeKey n) = k \<longrightarrow> val n = card {w. linked edges k w}"
    using assms(3) by (auto simp: property_name_def val_def length_adj_card split: option.splits)
  from assms(1) obtain n where "n \<in> set nodes" "nodeKey n = Some k"
    by (auto simp: nodeKeys_iff)
  then have e: "\<exists>n \<in> set nodes. property_name (nodeKey n) = k"
    by (force simp: property_name_def)
  have "degreeCentrality nodes edges
          = fold (\<lambda>node scores. obj_set scores (property_name (nodeKey node)) (val node)) nodes Map.empty"
    by (simp add: degreeCentrality_def Let_def val_def)
  with degree_fold[OF assms(2) v, of Map.empty] e show ?thesis by simp
qed

lemma degreeCentrality_undeclared:
  assumes "g \<notin> set (nodeKeys nodes)" "g \<noteq> []" "g \<noteq> ''undefined''"
  shows "degreeCentrality nodes edges g = None"
proof -
  define val where "val = (\<lambda>node. case nodeKey node of None \<Rightarrow> 0
                               | Some k \<Rightarrow> length (adj_get (buildAdjacency edges) k))"
  have ne: "\<not> (\<exists>n \<in> set nodes. property_name (nodeKey n) = g)"
    using assms by (auto simp: nodeKeys_iff property_name_def split: option.splits)
  have "fold (\<lambda>node scores. obj_set scores (property_name (nodeKey node)) (val node)) nodes m g = m g"
    for m
    using ne by (induction nodes arbitrary: m) (auto simp: obj_set_def)
  then show ?thesis by (simp add: degreeCentrality_def Let_def val_def)
qed

subsection \<open>One iteration of PageRank\<close>

text \<open>\<^verbatim>\<open>newRank[n]\<close> as the distribution loop reads it: a missing entry counts as the base rank.\<close>

definition rank_or :: "real \<Rightarrow> (string \<rightharpoonup> real) \<Rightarrow> string \<Rightarrow> real" where
  "rank_or base m x = (case m x of None \<Rightarrow> base | Some v \<Rightarrow> v)"

lemma rank_or_pr_give:
  "rank_or base (pr_give base share n m) x = rank_or base m x + (if x = n then share else 0)"
  by (auto simp: rank_or_def pr_give_def Let_def num_get_def split: option.splits)

lemma rank_or_fold_pr_give:
  "distinct ns \<Longrightarrow>
   rank_or base (fold (pr_give base share) ns m) x
     = rank_or base m x + (if x \<in> set ns then share else 0)"
proof (induction ns arbitrary: m)
  case Nil
  then show ?case by simp
next
  case (Cons n ns)
  then show ?case by (auto simp: rank_or_pr_give)
qed

lemma rank_or_shares:
  assumes "\<forall>j. distinct (adj_get adj j)"
  shows "rank_or base (fold (\<lambda>k nr. fold (pr_give base (share k)) (adj_get adj k) nr) ks m) x
         = rank_or base m x
           + sum_list (map (\<lambda>j. if x \<in> set (adj_get adj j) then share j else 0) ks)"
proof (induction ks arbitrary: m)
  case Nil
  then show ?case by simp
next
  case (Cons k ks)
  have d: "distinct (adj_get adj k)" using assms by simp
  show ?case
    by (simp add: Cons.IH rank_or_fold_pr_give[OF d])
qed

lemma rank_or_distribute:
  assumes "\<forall>j. distinct (adj_get adj j)"
  shows "rank_or base
           (fold (\<lambda>k nr.
                    let neighbors = adj_get adj k;
                        outDegree = (if length neighbors = 0 then 1 else length neighbors)
                    in fold (pr_give base (damping * (num_get rank k / real outDegree))) neighbors nr)
                 ks m) x
         = rank_or base m x
           + sum_list (map (\<lambda>j. if x \<in> set (adj_get adj j)
                                 then damping * (num_get rank j / real (length (adj_get adj j)))
                                 else 0) ks)"
proof -
  define share where "share = (\<lambda>k. damping * (num_get rank k /
        real (if length (adj_get adj k) = 0 then 1 else length (adj_get adj k))))"
  have f: "(\<lambda>k nr.
                    let neighbors = adj_get adj k;
                        outDegree = (if length neighbors = 0 then 1 else length neighbors)
                    in fold (pr_give base (damping * (num_get rank k / real outDegree))) neighbors nr)
           = (\<lambda>k nr. fold (pr_give base (share k)) (adj_get adj k) nr)"
    by (simp add: share_def Let_def)
  have "(if x \<in> set (adj_get adj j) then share j else 0)
          = (if x \<in> set (adj_get adj j)
             then damping * (num_get rank j / real (length (adj_get adj j))) else 0)" for j
  proof (cases "x \<in> set (adj_get adj j)")
    case True
    then have "length (adj_get adj j) \<noteq> 0" by auto
    then show ?thesis by (simp add: share_def)
  next
    case False
    then show ?thesis by simp
  qed
  then have "map (\<lambda>j. if x \<in> set (adj_get adj j) then share j else 0) ks
          = map (\<lambda>j. if x \<in> set (adj_get adj j)
             then damping * (num_get rank j / real (length (adj_get adj j))) else 0) ks"
    by (intro map_cong refl)
  with rank_or_shares[OF assms, of base share ks m x] show ?thesis
    unfolding f by (simp only:)
qed

lemma fold_keeps_entry:
  assumes "\<And>k m. m x \<noteq> None \<Longrightarrow> F k m x \<noteq> None" and "m x \<noteq> None"
  shows "fold F ks m x \<noteq> None"
  using assms(2)
proof (induction ks arbitrary: m)
  case Nil
  then show ?case by simp
next
  case (Cons k ks)
  have "F k m x \<noteq> None" using Cons.prems by (rule assms(1))
  then have "fold F ks (F k m) x \<noteq> None" by (rule Cons.IH)
  then show ?case by simp
qed

lemma fold_pr_give_dom: "m x \<noteq> None \<Longrightarrow> fold (pr_give base share) ns m x \<noteq> None"
  by (rule fold_keeps_entry) (rule pr_give_dom)

lemma distribute_dom:
  assumes "m x \<noteq> None"
  shows "fold (\<lambda>k nr.
           let neighbors = adj_get adj k;
               outDegree = (if length neighbors = 0 then 1 else length neighbors)
           in fold (pr_give base (damping * (num_get rank k / real outDegree))) neighbors nr)
        ks m x \<noteq> None"
proof (rule fold_keeps_entry)
  fix k and m :: "string \<rightharpoonup> real"
  assume "m x \<noteq> None"
  then have "fold (pr_give base (damping * (num_get rank k /
            real (if length (adj_get adj k) = 0 then 1 else length (adj_get adj k)))))
          (adj_get adj k) m x \<noteq> None"
    by (rule fold_pr_give_dom)
  then show "(let neighbors = adj_get adj k;
               outDegree = (if length neighbors = 0 then 1 else length neighbors)
           in fold (pr_give base (damping * (num_get rank k / real outDegree))) neighbors m) x
           \<noteq> None"
    by (simp add: Let_def)
next
  show "m x \<noteq> None" by (rule assms)
qed

lemma num_get_rank_or: "m x \<noteq> None \<Longrightarrow> num_get m x = rank_or base m x"
  by (auto simp: num_get_def rank_or_def)

lemma pr_iteration_get:
  assumes "\<forall>j. distinct (adj_get adj j)" and "k \<in> set keys"
  shows "pr_iteration damping N adj keys rank k
           = Some ((1 - damping) / real N
                   + sum_list (map (\<lambda>j. if k \<in> set (adj_get adj j)
                                        then damping * (num_get rank j / real (length (adj_get adj j)))
                                        else 0) keys))"
proof -
  define base where "base = (1 - damping) / real N"
  define newRank where "newRank =
     fold (\<lambda>k nr.
             let neighbors = adj_get adj k;
                 outDegree = (if length neighbors = 0 then 1 else length neighbors)
             in fold (pr_give base (damping * (num_get rank k / real outDegree))) neighbors nr)
          keys (init_all keys base)"
  have i: "init_all keys base k \<noteq> None" using assms(2) by (simp add: init_all_get)
  then have d: "newRank k \<noteq> None" unfolding newRank_def by (rule distribute_dom)
  have b: "rank_or base (init_all keys base) k = base"
    using assms(2) by (simp add: rank_or_def init_all_get)
  have "rank_or base newRank k
        = rank_or base (init_all keys base) k
          + sum_list (map (\<lambda>j. if k \<in> set (adj_get adj j)
                                        then damping * (num_get rank j / real (length (adj_get adj j)))
                                        else 0) keys)"
    unfolding newRank_def by (rule rank_or_distribute[OF assms(1)])
  with b num_get_rank_or[where m = newRank and x = k and base = base, OF d]
  have "num_get newRank k
        = base + sum_list (map (\<lambda>j. if k \<in> set (adj_get adj j)
                                        then damping * (num_get rank j / real (length (adj_get adj j)))
                                        else 0) keys)"
    by simp
  moreover have "pr_iteration damping N adj keys rank k = Some (num_get newRank k)"
    using assms(2) by (simp add: pr_iteration_def Let_def copy_back_get newRank_def base_def)
  ultimately show ?thesis by (simp add: base_def)
qed

lemma pageRank_step:
  assumes "k \<in> set (nodeKeys nodes)"
  shows "pageRank nodes edges (Suc i) damping k
           = Some ((1 - damping) / real (length (nodeKeys nodes))
                   + sum_list (map (\<lambda>j. if linked edges j k
                                        then damping * (num_get (pageRank nodes edges i damping) j
                                                         / real (card {w. linked edges j w}))
                                        else 0) (nodeKeys nodes)))"
proof -
  have ne: "length (nodeKeys nodes) \<noteq> 0" using assms by auto
  have d: "\<forall>j. distinct (adj_get (buildAdjacency edges) j)"
    by (simp add: distinct_adj_get_build)
  have s: "pageRank nodes edges (Suc i) damping
          = pr_iteration damping (length (nodeKeys nodes)) (buildAdjacency edges) (nodeKeys nodes)
              (pageRank nodes edges i damping)"
    using ne by (simp add: pageRank_def Let_def)
  have m: "map (\<lambda>j. if k \<in> set (adj_get (buildAdjacency edges) j)
                     then damping * (num_get (pageRank nodes edges i damping) j
                                      / real (length (adj_get (buildAdjacency edges) j)))
                     else 0) (nodeKeys nodes)
         = map (\<lambda>j. if linked edges j k
                     then damping * (num_get (pageRank nodes edges i damping) j
                                      / real (card {w. linked edges j w}))
                     else 0) (nodeKeys nodes)"
    by (intro map_cong refl) (simp add: set_adj_get_build length_adj_card)
  show ?thesis
    unfolding s pr_iteration_get[OF d assms] m by (rule refl)
qed

lemma pageRank_initial:
  assumes "k \<in> set (nodeKeys nodes)"
  shows "pageRank nodes edges 0 damping k = Some (1 / real (length (nodeKeys nodes)))"
proof -
  have "length (nodeKeys nodes) \<noteq> 0" using assms by auto
  then show ?thesis using assms by (simp add: pageRank_def Let_def init_all_get)
qed

lemma pageRank_undeclared:
  "g \<notin> set (nodeKeys nodes) \<Longrightarrow> pageRank nodes edges i damping g = None"
  using dom_pageRank[of nodes edges i damping] by (auto simp: dom_def)

subsection \<open>The claim\<close>

lemma ex_dangling_filter:
  "filter (declared_ends ex_dangling_nodes) ex_dangling_edges = [ex_edge ''@a'' ''@m'' None]"
  by code_simp

text \<open>
  The sample graph: the neighbourhood of \<^verbatim>\<open>@m\<close> after two rounds, the degrees, and the ranks
  after one iteration, next to the ranks without the two edges that touch \<^verbatim>\<open>@g\<close>. The dangling
  neighbour halves what \<^verbatim>\<open>@m\<close> sends to \<^verbatim>\<open>@a\<close>.
\<close>

lemma ex_dangling_neighbors:
  "getNeighbors ex_dangling_nodes ex_dangling_edges ''@m'' 2
     = Inr (''@m'', ex_dangling_nodes, ex_dangling_edges)"
  by code_simp

lemma ex_dangling_degree:
  "map (degreeCentrality ex_dangling_nodes ex_dangling_edges) [''@a'', ''@m'', ''@g'', ''@b'']
     = [Some 1, Some 2, None, Some 1]"
  by code_simp

lemma ex_dangling_pageRank:
  "map (pageRank ex_dangling_nodes ex_dangling_edges 1 (85 / 100)) [''@a'', ''@m'', ''@g'', ''@b'']
     = [Some (23 / 120), Some (1 / 3), None, Some (1 / 20)]
   \<and> map (pageRank ex_dangling_nodes [ex_edge ''@a'' ''@m'' None] 1 (85 / 100))
         [''@a'', ''@m'', ''@g'', ''@b'']
     = [Some (1 / 3), Some (1 / 3), None, Some (1 / 20)]"
  by code_simp


text \<open>
  Claim C1, as stated: betweenness counts shortest paths through a dangling key and PageRank
  lets a dangling key receive and accumulate rank. Take the declared nodes \<^verbatim>\<open>@a\<close>, \<^verbatim>\<open>@m\<close>, \<^verbatim>\<open>@b\<close>
  and the edges \<^verbatim>\<open>@a -> @m\<close>, \<^verbatim>\<open>@m -> @g\<close>, \<^verbatim>\<open>@g -> @b\<close>, where \<^verbatim>\<open>@g\<close> is not declared. Every
  shortest path from \<^verbatim>\<open>@a\<close> to \<^verbatim>\<open>@b\<close> passes through \<^verbatim>\<open>@m\<close> and \<^verbatim>\<open>@g\<close>, yet the betweenness of
  \<^verbatim>\<open>@m\<close> is 0 and \<^verbatim>\<open>@g\<close> has no score; once \<^verbatim>\<open>@g\<close> is declared, \<^verbatim>\<open>@m\<close> and \<^verbatim>\<open>@g\<close> both score 4.
  After 20 iterations of PageRank \<^verbatim>\<open>@g\<close> has no rank.
\<close>

theorem centrality_skips_dangling_key:
  "scores_at [''@a'', ''@m'', ''@g'', ''@b'']
     (betweennessCentrality [ex_node ''@a'', ex_node ''@m'', ex_node ''@b'']
        [ex_edge ''@a'' ''@m'' None, ex_edge ''@m'' ''@g'' None, ex_edge ''@g'' ''@b'' None])
     = Some [Some 0, Some 0, None, Some 0]
   \<and> scores_at [''@a'', ''@m'', ''@g'', ''@b'']
     (betweennessCentrality [ex_node ''@a'', ex_node ''@m'', ex_node ''@g'', ex_node ''@b'']
        [ex_edge ''@a'' ''@m'' None, ex_edge ''@m'' ''@g'' None, ex_edge ''@g'' ''@b'' None])
     = Some [Some 0, Some 4, Some 4, Some 0]
   \<and> pageRank [ex_node ''@a'', ex_node ''@m'', ex_node ''@b'']
        [ex_edge ''@a'' ''@m'' None, ex_edge ''@m'' ''@g'' None, ex_edge ''@g'' ''@b'' None]
        20 (85 / 100) ''@g'' = None"
  by code_simp

text \<open>
  Claim C1, amended: for every graph in which no node is keyed \<^verbatim>\<open>__proto__\<close>, a dangling key is
  an implicit node of traversal, and in centrality it counts only as a neighbour of declared
  nodes.
  \<^item> Traversal: for a start key that resolves, the keys visited in \<open>hops\<close> rounds are exactly the
    keys within \<open>hops\<close> links of the start key, declared or not; the result holds the declared
    nodes with a key, id or handle among them and every edge with both ends among them.
  \<^item> Degree centrality counts dangling neighbours: the score of a declared key (other than
    \<^verbatim>\<open>undefined\<close>) is the number of keys linked to it; a dangling key (other than \<^verbatim>\<open>undefined\<close>)
    has no score.
  \<^item> PageRank: every declared key starts with the rank 1/N; in each iteration a declared key
    sends its damped rank in equal shares to all the keys linked to it, dangling ones
    included, and the new rank of a declared key is the base rank plus the shares sent to it
    by declared keys. The shares sent to a dangling key are dropped at the end of the
    iteration: a dangling key has no rank after any number of iterations, and nothing
    accumulates for it.
  \<^item> Betweenness centrality always returns, gives a score to the declared keys and to no
    other key, and never visits a dangling key: its scores are those of the graph without
    the edges that touch a dangling key, so no shortest path through such a key is counted.
\<close>

theorem dangling_keys_in_traversal_and_centrality:
  assumes "''__proto__'' \<notin> set (nodeKeys nodes)"
  shows "(\<forall>k startKey hops.
            resolveNodeKey k (buildNodeIndex nodes) = Some startKey \<longrightarrow>
            getNeighbors nodes edges k hops =
              Inr (startKey,
                   filter (\<lambda>n. visited_has (within_hops edges startKey hops) (nodeKey n)
                                \<or> visited_has (within_hops edges startKey hops) (n_id n)
                                \<or> visited_has (within_hops edges startKey hops) (n_handle n)) nodes,
                   filter (\<lambda>e. visited_has (within_hops edges startKey hops) (e_from e)
                                \<and> visited_has (within_hops edges startKey hops) (e_to e)) edges))
       \<and> (\<forall>k \<in> set (nodeKeys nodes). k \<noteq> ''undefined'' \<longrightarrow>
             degreeCentrality nodes edges k = Some (card {w. linked edges k w}))
       \<and> (\<forall>g. g \<notin> set (nodeKeys nodes) \<and> g \<noteq> [] \<and> g \<noteq> ''undefined'' \<longrightarrow>
             degreeCentrality nodes edges g = None)
       \<and> (\<forall>k \<in> set (nodeKeys nodes).
             pageRank nodes edges 0 damping k = Some (1 / real (length (nodeKeys nodes))))
       \<and> (\<forall>i. \<forall>k \<in> set (nodeKeys nodes).
             pageRank nodes edges (Suc i) damping k
               = Some ((1 - damping) / real (length (nodeKeys nodes))
                       + sum_list (map (\<lambda>j. if linked edges j k
                                             then damping * (num_get (pageRank nodes edges i damping) j
                                                              / real (card {w. linked edges j w}))
                                             else 0) (nodeKeys nodes))))
       \<and> (\<forall>i g. g \<notin> set (nodeKeys nodes) \<longrightarrow> pageRank nodes edges i damping g = None)
       \<and> (\<exists>scores. betweennessCentrality nodes edges = Some scores
             \<and> betweennessCentrality nodes (filter (declared_ends nodes) edges) = Some scores
             \<and> dom scores = set (nodeKeys nodes))"
proof -
  have d: "\<forall>k \<in> set (nodeKeys nodes). k \<noteq> ''undefined'' \<longrightarrow>
             degreeCentrality nodes edges k = Some (card {w. linked edges k w})"
  proof (intro ballI impI)
    fix k assume k: "k \<in> set (nodeKeys nodes)" "k \<noteq> ''undefined''"
    with assms have "k \<noteq> ''__proto__''" by auto
    with k show "degreeCentrality nodes edges k = Some (card {w. linked edges k w})"
      by (intro degreeCentrality_declared)
  qed
  have t: "\<forall>k startKey hops.
            resolveNodeKey k (buildNodeIndex nodes) = Some startKey \<longrightarrow>
            getNeighbors nodes edges k hops =
              Inr (startKey,
                   filter (\<lambda>n. visited_has (within_hops edges startKey hops) (nodeKey n)
                                \<or> visited_has (within_hops edges startKey hops) (n_id n)
                                \<or> visited_has (within_hops edges startKey hops) (n_handle n)) nodes,
                   filter (\<lambda>e. visited_has (within_hops edges startKey hops) (e_from e)
                                \<and> visited_has (within_hops edges startKey hops) (e_to e)) edges)"
    by (intro allI impI) (rule getNeighbors_within_hops)
  have u: "\<forall>g. g \<notin> set (nodeKeys nodes) \<and> g \<noteq> [] \<and> g \<noteq> ''undefined'' \<longrightarrow>
             degreeCentrality nodes edges g = None"
    by (intro allI impI, elim conjE, rule degreeCentrality_undeclared)
  have o: "\<forall>k \<in> set (nodeKeys nodes).
             pageRank nodes edges 0 damping k = Some (1 / real (length (nodeKeys nodes)))"
    by (intro ballI) (rule pageRank_initial)
  have p: "\<forall>i. \<forall>k \<in> set (nodeKeys nodes).
             pageRank nodes edges (Suc i) damping k
               = Some ((1 - damping) / real (length (nodeKeys nodes))
                       + sum_list (map (\<lambda>j. if linked edges j k
                                             then damping * (num_get (pageRank nodes edges i damping) j
                                                              / real (card {w. linked edges j w}))
                                             else 0) (nodeKeys nodes)))"
    by (intro allI ballI) (rule pageRank_step)
  have q: "\<forall>i g. g \<notin> set (nodeKeys nodes) \<longrightarrow> pageRank nodes edges i damping g = None"
    by (intro allI impI) (rule pageRank_undeclared)
  have b: "\<exists>scores. betweennessCentrality nodes edges = Some scores
             \<and> betweennessCentrality nodes (filter (declared_ends nodes) edges) = Some scores
             \<and> dom scores = set (nodeKeys nodes)"
    by (rule betweenness_main)
  show ?thesis
    apply (intro conjI)
          apply (rule t)
         apply (rule d)
        apply (rule u)
       apply (rule o)
      apply (rule p)
     apply (rule q)
    apply (rule b)
    done
qed

text \<open>
  The amended claim at the graph \<^verbatim>\<open>@a - @m - @g - @b\<close>: two rounds from \<^verbatim>\<open>@m\<close> reach \<^verbatim>\<open>@b\<close> through
  the dangling key \<^verbatim>\<open>@g\<close> and return all three edges; \<^verbatim>\<open>@m\<close> has degree 2; \<^verbatim>\<open>@g\<close> has no
  degree and no rank; and the betweenness scores are those of the single edge \<^verbatim>\<open>@a - @m\<close>.
\<close>

theorem dangling_keys_in_traversal_and_centrality_witness:
  "''__proto__'' \<notin> set (nodeKeys ex_dangling_nodes)
   \<and> resolveNodeKey ''@m'' (buildNodeIndex ex_dangling_nodes) = Some ''@m''
   \<and> (Inr (''@m'', ex_dangling_nodes, ex_dangling_edges)
        :: error + string \<times> node list \<times> edge list)
       = Inr (''@m'',
              filter (\<lambda>n. visited_has (within_hops ex_dangling_edges ''@m'' 2) (nodeKey n)
                           \<or> visited_has (within_hops ex_dangling_edges ''@m'' 2) (n_id n)
                           \<or> visited_has (within_hops ex_dangling_edges ''@m'' 2) (n_handle n))
                ex_dangling_nodes,
              filter (\<lambda>e. visited_has (within_hops ex_dangling_edges ''@m'' 2) (e_from e)
                           \<and> visited_has (within_hops ex_dangling_edges ''@m'' 2) (e_to e))
                ex_dangling_edges)
   \<and> Some 2 = Some (card {w. linked ex_dangling_edges ''@m'' w})
   \<and> degreeCentrality ex_dangling_nodes ex_dangling_edges ''@g'' = None
   \<and> pageRank ex_dangling_nodes ex_dangling_edges 20 (85 / 100) ''@g'' = None
   \<and> betweennessCentrality ex_dangling_nodes ex_dangling_edges
       = betweennessCentrality ex_dangling_nodes [ex_edge ''@a'' ''@m'' None]"
proof -
  have p: "''__proto__'' \<notin> set (nodeKeys ex_dangling_nodes)" by code_simp
  have m: "''@m'' \<in> set (nodeKeys ex_dangling_nodes)" "''@m'' \<noteq> ''undefined''"
    by code_simp+
  have g: "''@g'' \<notin> set (nodeKeys ex_dangling_nodes)" "''@g'' \<noteq> []" "''@g'' \<noteq> ''undefined''"
    by code_simp+
  have r: "resolveNodeKey ''@m'' (buildNodeIndex ex_dangling_nodes) = Some ''@m''"
    by code_simp
  have dm: "degreeCentrality ex_dangling_nodes ex_dangling_edges ''@m'' = Some 2"
    using ex_dangling_degree by simp
  note t = dangling_keys_in_traversal_and_centrality [OF p, of ex_dangling_edges "85 / 100",
      unfolded ex_dangling_filter]
  note t1 = t[THEN conjunct1, rule_format, OF r]
  note t2 = t[THEN conjunct2, THEN conjunct1, rule_format, OF m]
  note t3 = t[THEN conjunct2, THEN conjunct2, THEN conjunct1, rule_format,
      OF conjI[OF g(1) conjI[OF g(2) g(3)]]]
  note t5 = t[THEN conjunct2, THEN conjunct2, THEN conjunct2, THEN conjunct2, THEN conjunct2,
      THEN conjunct1, rule_format, OF g(1)]
  note t6 = t[THEN conjunct2, THEN conjunct2, THEN conjunct2, THEN conjunct2, THEN conjunct2,
      THEN conjunct2]
  have 1: "(Inr (''@m'', ex_dangling_nodes, ex_dangling_edges)
        :: error + string \<times> node list \<times> edge list)
       = Inr (''@m'',
              filter (\<lambda>n. visited_has (within_hops ex_dangling_edges ''@m'' 2) (nodeKey n)
                           \<or> visited_has (within_hops ex_dangling_edges ''@m'' 2) (n_id n)
                           \<or> visited_has (within_hops ex_dangling_edges ''@m'' 2) (n_handle n))
                ex_dangling_nodes,
              filter (\<lambda>e. visited_has (within_hops ex_dangling_edges ''@m'' 2) (e_from e)
                           \<and> visited_has (within_hops ex_dangling_edges ''@m'' 2) (e_to e))
                ex_dangling_edges)"
    by (rule trans[OF ex_dangling_neighbors[symmetric] t1])
  have 2: "Some 2 = Some (card {w. linked ex_dangling_edges ''@m'' w})"
    by (rule trans[OF dm[symmetric] t2])
  obtain scores where
    "betweennessCentrality ex_dangling_nodes ex_dangling_edges = Some scores"
    "betweennessCentrality ex_dangling_nodes [ex_edge ''@a'' ''@m'' None] = Some scores"
    using t6 by blast
  then have 5: "betweennessCentrality ex_dangling_nodes ex_dangling_edges
       = betweennessCentrality ex_dangling_nodes [ex_edge ''@a'' ''@m'' None]"
    by simp
  show ?thesis
    by (intro conjI p r 1 2 t3 t5 5)
qed

end
